theory Spec2Isabelle
  imports Main "HOL-Library.Multiset"
begin

section \<open>Errors and promises\<close>

text \<open>
  A rejected promise (or a thrown exception inside an \<^verbatim>\<open>async\<close> function) is the
  left summand of a sum; a fulfilled promise is the right summand.
  \<^verbatim>\<open>TypeError\<close> is what JavaScript throws when a property of \<^verbatim>\<open>undefined\<close> is
  read or when \<^verbatim>\<open>path.resolve\<close> gets a non-string; \<^verbatim>\<open>SystemError\<close> carries the
  errno code of a failed \<^verbatim>\<open>node:fs\<close> call.
\<close>

datatype error = TypeError | SystemError string

type_synonym 'a promise = "error + 'a"

definition thenP :: "'a promise \<Rightarrow> ('a \<Rightarrow> 'b promise) \<Rightarrow> 'b promise" where
  "thenP p f = (case p of Inl e \<Rightarrow> Inl e | Inr v \<Rightarrow> f v)"

definition catchP :: "'a promise \<Rightarrow> (error \<Rightarrow> 'a promise) \<Rightarrow> 'a promise" where
  "catchP p h = (case p of Inl e \<Rightarrow> h e | Inr v \<Rightarrow> Inr v)"

section \<open>\<^verbatim>\<open>node:path\<close>, POSIX flavour\<close>

text \<open>
  \<^verbatim>\<open>dirname\<close>, \<^verbatim>\<open>basename\<close> and \<^verbatim>\<open>resolve\<close> of Node's \<^verbatim>\<open>path.posix\<close>. They are
  collaborators of the repository (imported from \<^verbatim>\<open>node:path\<close>), modelled on strings.
\<close>

definition isSlash :: "char \<Rightarrow> bool" where
  "isSlash c = (c = CHR ''/'')"

text \<open>
  \<^verbatim>\<open>dirname\<close>: scanning from the right down to index 1, skip trailing slashes, skip the
  last name, stop at the slash before it (index \<open>end\<close>); the result is the prefix before
  that slash, \<^verbatim>\<open>'/'\<close> or \<^verbatim>\<open>'.'\<close> when there is none, \<^verbatim>\<open>'//'\<close> when \<open>end = 1\<close> under a
  root.
\<close>

definition dirname :: "string \<Rightarrow> string" where
  "dirname path =
     (if path = [] then ''.''
      else
        let hasRoot = isSlash (hd path);
            scanned = dropWhile (\<lambda>c. \<not> isSlash c) (dropWhile isSlash (rev (tl path)));
            end = length scanned
        in if end = 0 then (if hasRoot then ''/'' else ''.'')
           else if hasRoot \<and> end = 1 then ''//''
           else take end path)"

definition basename :: "string \<Rightarrow> string" where
  "basename path = rev (takeWhile (\<lambda>c. \<not> isSlash c) (dropWhile isSlash (rev path)))"

fun splitSlash :: "string \<Rightarrow> string \<Rightarrow> string list" where
  "splitSlash cur [] = [rev cur]"
| "splitSlash cur (c # cs) =
     (if isSlash c then rev cur # splitSlash [] cs else splitSlash (c # cur) cs)"

fun joinSlash :: "string list \<Rightarrow> string" where
  "joinSlash [] = []"
| "joinSlash [s] = s"
| "joinSlash (s # t # ss) = s @ ''/'' @ joinSlash (t # ss)"

text \<open>
  \<^verbatim>\<open>normalizeString\<close>: empty and \<^verbatim>\<open>'.'\<close> segments vanish, \<^verbatim>\<open>'..'\<close> removes the segment
  before it; above the root it is dropped, or kept when \<open>allowAboveRoot\<close>.
\<close>

definition normalizeStep :: "bool \<Rightarrow> string list \<Rightarrow> string \<Rightarrow> string list" where
  "normalizeStep allowAboveRoot res seg =
     (if seg = [] \<or> seg = ''.'' then res
      else if seg = ''..'' then
        (if res \<noteq> [] \<and> last res \<noteq> ''..'' then butlast res
         else if allowAboveRoot then res @ [''..''] else res)
      else res @ [seg])"

definition normalizeString :: "string \<Rightarrow> bool \<Rightarrow> string" where
  "normalizeString path allowAboveRoot =
     joinSlash (foldl (normalizeStep allowAboveRoot) [] (splitSlash [] path))"

text \<open>
  \<^verbatim>\<open>resolve\<close> reads its arguments from the right until one is absolute, then the
  process's working directory; here the arguments come reversed.
\<close>

fun resolveLoop :: "string list \<Rightarrow> string \<Rightarrow> string \<times> bool" where
  "resolveLoop [] resolvedPath = (resolvedPath, False)"
| "resolveLoop (path # rest) resolvedPath =
     (if path = [] then resolveLoop rest resolvedPath
      else if isSlash (hd path) then (path @ ''/'' @ resolvedPath, True)
      else resolveLoop rest (path @ ''/'' @ resolvedPath))"

definition resolve :: "string \<Rightarrow> string list \<Rightarrow> string" where
  "resolve processCwd args =
     (case resolveLoop (rev args @ [processCwd]) [] of
        (resolvedPath, resolvedAbsolute) \<Rightarrow>
          let normalized = normalizeString resolvedPath (\<not> resolvedAbsolute)
          in if resolvedAbsolute then ''/'' @ normalized
             else if normalized \<noteq> [] then normalized else ''.'')"

section \<open>The environment\<close>

text \<open>
  What the code reads from outside: the file system through \<^verbatim>\<open>node:fs/promises\<close>, the
  working directory of the process, and the glob collaborator (the files it walks
  beneath a directory, its matcher of patterns, its matcher of ignored patterns, and
  its ignore-file filter).
\<close>

record env =
  access :: "string \<Rightarrow> unit promise"
  readdir :: "string \<Rightarrow> string list promise"
  realpath :: "string \<Rightarrow> string promise"
  processCwd :: string
  walked :: "string \<Rightarrow> string list"
  gmatch :: "string \<Rightarrow> string \<Rightarrow> string \<Rightarrow> bool"
  gignored :: "string \<Rightarrow> string \<Rightarrow> string \<Rightarrow> bool"
  ignoredByFiles :: "string \<Rightarrow> string \<Rightarrow> bool"

section \<open>\<^verbatim>\<open>utils/fs.ts\<close>\<close>

text \<open>
  \<^verbatim>\<open>
  export function pathExists(path: string) {
      return fs.access(path, FS_CONSTANTS.F_OK)
          .then(async () => {
              const dir = dirname(path);
              const fileNames = await fs.readdir(dir);
              return fileNames.includes(basename(path));
          })
          .catch(() => false);
  }
  \<close>
\<close>

definition pathExists :: "env \<Rightarrow> string \<Rightarrow> bool promise" where
  "pathExists E path =
     catchP
       (thenP (access E path)
          (\<lambda>_. let dir = dirname path
               in thenP (readdir E dir)
                    (\<lambda>fileNames. Inr (basename path \<in> set fileNames))))
       (\<lambda>_. Inr False)"

section \<open>The parse tree of \<^verbatim>\<open>jsonc-parser\<close>\<close>

text \<open>
  A \<^verbatim>\<open>Node\<close> of \<^verbatim>\<open>jsonc-parser\<close> has a type tag, an offset and a length in the text,
  a \<^verbatim>\<open>value\<close> on the leaves and \<^verbatim>\<open>children\<close> on objects, arrays and properties. The
  children of an object are its properties; the children of a property are its key
  (a string node) and, when the text has one, its value. A number keeps the text of
  its literal: no function here reads it.
\<close>

datatype ntype = TObject | TArray | TProperty | TString | TNumber | TBoolean | TNull

datatype node =
    NObject int int "node list"
  | NArray int int "node list"
  | NProperty int int "node list"
  | NString int int string
  | NNumber int int string
  | NBoolean int int bool
  | NNull int int

fun nodeType :: "node \<Rightarrow> ntype" where
  "nodeType (NObject _ _ _) = TObject"
| "nodeType (NArray _ _ _) = TArray"
| "nodeType (NProperty _ _ _) = TProperty"
| "nodeType (NString _ _ _) = TString"
| "nodeType (NNumber _ _ _) = TNumber"
| "nodeType (NBoolean _ _ _) = TBoolean"
| "nodeType (NNull _ _) = TNull"

fun offset :: "node \<Rightarrow> int" where
  "offset (NObject off _ _) = off"
| "offset (NArray off _ _) = off"
| "offset (NProperty off _ _) = off"
| "offset (NString off _ _) = off"
| "offset (NNumber off _ _) = off"
| "offset (NBoolean off _ _) = off"
| "offset (NNull off _) = off"

fun nlength :: "node \<Rightarrow> int" where
  "nlength (NObject _ len _) = len"
| "nlength (NArray _ len _) = len"
| "nlength (NProperty _ len _) = len"
| "nlength (NString _ len _) = len"
| "nlength (NNumber _ len _) = len"
| "nlength (NBoolean _ len _) = len"
| "nlength (NNull _ len) = len"

text \<open>\<^verbatim>\<open>node.children\<close>; a leaf has none, which every reader below treats as empty.\<close>

fun children :: "node \<Rightarrow> node list" where
  "children (NObject _ _ cs) = cs"
| "children (NArray _ _ cs) = cs"
| "children (NProperty _ _ cs) = cs"
| "children _ = []"

text \<open>\<^verbatim>\<open>node.value\<close> where it is a string.\<close>

fun stringValue :: "node \<Rightarrow> string option" where
  "stringValue (NString _ _ v) = Some v"
| "stringValue _ = None"

text \<open>
  JavaScript compares nodes by identity, and a node knows its \<^verbatim>\<open>parent\<close>. A reference
  to a node of a tree is therefore the path of child indices from the root, with the
  node found there; two references are the same object exactly when their paths are
  equal. The root has no parent.
\<close>

type_synonym nref = "nat list \<times> node"

fun nodeAt :: "node \<Rightarrow> nat list \<Rightarrow> node option" where
  "nodeAt n [] = Some n"
| "nodeAt n (i # path) =
     (if i < length (children n) then nodeAt (children n ! i) path else None)"

definition parent :: "node \<Rightarrow> nref \<Rightarrow> nref option" where
  "parent root r =
     (if fst r = [] then None
      else map_option (Pair (butlast (fst r))) (nodeAt root (butlast (fst r))))"

text \<open>
  \<^verbatim>\<open>findNodeAtLocation(root, path)\<close> for a path of property names: in an object, the
  first property with two children whose key is the segment; the result is that
  property's value node (its second child), not the property.
\<close>

fun findProperty :: "node list \<Rightarrow> string \<Rightarrow> nat \<Rightarrow> nref option" where
  "findProperty [] segment i = None"
| "findProperty (propertyNode # rest) segment i =
     (case children propertyNode of
        [k, v] \<Rightarrow>
          (if stringValue k = Some segment then Some ([i, 1], v)
           else findProperty rest segment (Suc i))
      | _ \<Rightarrow> findProperty rest segment (Suc i))"

fun findNodeAtLocation :: "node \<Rightarrow> string list \<Rightarrow> nref option" where
  "findNodeAtLocation n [] = Some ([], n)"
| "findNodeAtLocation n (segment # path) =
     (if nodeType n \<noteq> TObject then None
      else case findProperty (children n) segment 0 of
             None \<Rightarrow> None
           | Some (p, v) \<Rightarrow>
               (case findNodeAtLocation v path of
                  None \<Rightarrow> None
                | Some (q, m) \<Rightarrow> Some (p @ q, m)))"

text \<open>
  \<^verbatim>\<open>findNodeAtOffset(node, offset)\<close>, with \<^verbatim>\<open>includeRightBound\<close> false: the innermost
  node whose span holds the offset, searching the children in order while they
  start at or before it.
\<close>

definition containsOffset :: "node \<Rightarrow> int \<Rightarrow> bool" where
  "containsOffset n off = (offset n \<le> off \<and> off < offset n + nlength n)"

fun findNodeAtOffset :: "node \<Rightarrow> int \<Rightarrow> nref option"
  and findInChildren :: "node list \<Rightarrow> nat \<Rightarrow> int \<Rightarrow> nref option" where
  "findNodeAtOffset (NObject o' l cs) off =
     (if containsOffset (NObject o' l cs) off
      then (case findInChildren cs 0 off of
              None \<Rightarrow> Some ([], NObject o' l cs) | Some item \<Rightarrow> Some item)
      else None)"
| "findNodeAtOffset (NArray o' l cs) off =
     (if containsOffset (NArray o' l cs) off
      then (case findInChildren cs 0 off of
              None \<Rightarrow> Some ([], NArray o' l cs) | Some item \<Rightarrow> Some item)
      else None)"
| "findNodeAtOffset (NProperty o' l cs) off =
     (if containsOffset (NProperty o' l cs) off
      then (case findInChildren cs 0 off of
              None \<Rightarrow> Some ([], NProperty o' l cs) | Some item \<Rightarrow> Some item)
      else None)"
| "findNodeAtOffset (NString o' l v) off =
     (if containsOffset (NString o' l v) off then Some ([], NString o' l v) else None)"
| "findNodeAtOffset (NNumber o' l v) off =
     (if containsOffset (NNumber o' l v) off then Some ([], NNumber o' l v) else None)"
| "findNodeAtOffset (NBoolean o' l v) off =
     (if containsOffset (NBoolean o' l v) off then Some ([], NBoolean o' l v) else None)"
| "findNodeAtOffset (NNull o' l) off =
     (if containsOffset (NNull o' l) off then Some ([], NNull o' l) else None)"
| "findInChildren [] i off = None"
| "findInChildren (c # cs) i off =
     (if offset c \<le> off
      then (case findNodeAtOffset c off of
              Some (p, n) \<Rightarrow> Some (i # p, n)
            | None \<Rightarrow> findInChildren cs (Suc i) off)
      else None)"

section \<open>\<^verbatim>\<open>utils/pkg.ts\<close>\<close>

text \<open>
  Modelled from the spec: the constants \<^verbatim>\<open>NODE_MODULES\<close> and \<^verbatim>\<open>PACKAGE_JSON\<close> of
  \<^verbatim>\<open>utils/constants\<close>, which is not among the sources; the spec names the paths
  \<^verbatim>\<open><dir>/node_modules/<packageName>/package.json\<close>.
\<close>

definition NODE_MODULES :: string where
  "NODE_MODULES = ''node_modules''"

definition PACKAGE_JSON :: string where
  "PACKAGE_JSON = ''package.json''"

text \<open>
  \<^verbatim>\<open>
  while (true) {
      pkgInstallDir = resolve(currentDirPath, NODE_MODULES, packageName);
      const pkgJsonPath = resolve(pkgInstallDir, PACKAGE_JSON);
      const pkgExists = await Promise.all([pathExists(pkgInstallDir), pathExists(pkgJsonPath)]);
      if (pkgExists.every(Boolean)) return pkgInstallDir;
      if (currentDirPath === endPath) return;
      currentDirPath = dirname(currentDirPath);
  }
  \<close>
  The loop has no bound of its own: it ends at a hit or at \<open>endPath\<close>. Not returning is
  the value \<open>None\<close>; \<open>Some (Inl e)\<close> is a rejection, \<open>Some (Inr None)\<close> the plain \<^verbatim>\<open>return\<close>.
\<close>

partial_function (option) walkUp ::
  "env \<Rightarrow> string \<Rightarrow> string \<Rightarrow> string \<Rightarrow> string option promise option" where
  "walkUp E packageName endPath currentDirPath =
     (case pathExists E (resolve (processCwd E) [currentDirPath, NODE_MODULES, packageName]) of
        Inl e \<Rightarrow> Some (Inl e)
      | Inr dirExists \<Rightarrow>
          (case pathExists E
                  (resolve (processCwd E)
                     [resolve (processCwd E) [currentDirPath, NODE_MODULES, packageName],
                      PACKAGE_JSON]) of
             Inl e \<Rightarrow> Some (Inl e)
           | Inr jsonExists \<Rightarrow>
               if dirExists \<and> jsonExists
               then Some (Inr (Some (resolve (processCwd E)
                                       [currentDirPath, NODE_MODULES, packageName])))
               else if currentDirPath = endPath then Some (Inr None)
               else walkUp E packageName endPath (dirname currentDirPath)))"

declare walkUp.simps [code]

text \<open>
  \<^verbatim>\<open>getRoot\<close> of \<^verbatim>\<open>utils/path\<close> is not among the sources: it is a parameter.
\<close>

definition findPkgInstallDir ::
  "env \<Rightarrow> (string \<Rightarrow> string) \<Rightarrow> string \<Rightarrow> string \<Rightarrow> string option promise option" where
  "findPkgInstallDir E getRoot packageName baseFilePath =
     (case realpath E baseFilePath of
        Inl e \<Rightarrow> Some (Inl e)
      | Inr real \<Rightarrow> walkUp E packageName (getRoot real) (dirname real))"

text \<open>
  \<^verbatim>\<open>getPkgNameAndVersionFromDocPosition\<close>. The parsed root (\<^verbatim>\<open>parseJsonc\<close> of the text,
  \<open>None\<close> when it gives nothing), the cursor's offset and the verdict
  \<^verbatim>\<open>validatePkgName(name).validForOldPackages\<close> are taken as given.
  \<^verbatim>\<open>
  const versionNode = nameNode.parent.children![1];
  const isHoverOverDependency =
      nameNode.type === 'string' &&
      versionNode.type === 'string' &&
      nameNode.parent?.type === 'property' &&
      nameNode.parent.children?.length === 2 &&
      nameNode === nameNode.parent.children![0] &&
      dependenciesNodes.includes(nameNode.parent?.parent);
  \<close>
  \<open>versionNode\<close> is \<^verbatim>\<open>undefined\<close> when the parent has fewer than two children, and
  reading \<^verbatim>\<open>.type\<close> of it throws; the conjunction is evaluated left to right.
\<close>

definition dependenciesNodePath :: "string list" where
  "dependenciesNodePath =
     [''dependencies'', ''devDependencies'', ''peerDependencies'', ''optionalDependencies'']"

record pkgNameAndVersion =
  nameNode :: nref
  versionNode :: nref
  name :: string
  version :: string

definition getPkgNameAndVersionFromDocPosition ::
  "(string \<Rightarrow> bool) \<Rightarrow> node option \<Rightarrow> int \<Rightarrow> pkgNameAndVersion option promise" where
  "getPkgNameAndVersionFromDocPosition validForOldPackages parsed off =
     (case parsed of
        None \<Rightarrow> Inr None
      | Some root \<Rightarrow>
          (case findNodeAtOffset root off of
             None \<Rightarrow> Inr None
           | Some nameN \<Rightarrow>
               (case parent root nameN of
                  None \<Rightarrow> Inr None
                | Some par \<Rightarrow>
                    let dependenciesNodes =
                          map (\<lambda>path. map_option fst (findNodeAtLocation root [path]))
                            dependenciesNodePath;
                        siblings = children (snd par)
                    in if nodeType (snd nameN) \<noteq> TString then Inr None
                       else if length siblings < 2 then Inl TypeError
                       else
                         let versionN = (fst par @ [1], siblings ! 1)
                         in if nodeType (snd versionN) = TString \<and>
                               nodeType (snd par) = TProperty \<and>
                               length siblings = 2 \<and>
                               fst nameN = fst par @ [0] \<and>
                               map_option fst (parent root par) \<in> set dependenciesNodes
                            then
                              (case (stringValue (snd nameN), stringValue (snd versionN)) of
                                 (Some pkgName, Some ver) \<Rightarrow>
                                   if \<not> validForOldPackages pkgName then Inr None
                                   else Inr (Some \<lparr>nameNode = nameN, versionNode = versionN,
                                                  name = pkgName, version = ver\<rparr>)
                               | _ \<Rightarrow> Inr None)
                            else Inr None)))"

section \<open>Strings and sets of JavaScript\<close>

definition startsWith :: "string \<Rightarrow> string \<Rightarrow> bool" where
  "startsWith s pre = (take (length pre) s = pre)"

definition endsWith :: "string \<Rightarrow> string \<Rightarrow> bool" where
  "endsWith s suf = (length suf \<le> length s \<and> drop (length s - length suf) s = suf)"

text \<open>\<^verbatim>\<open>s.slice(0, -k)\<close>: the string without its last \<open>k\<close> characters.\<close>

definition sliceEnd :: "string \<Rightarrow> nat \<Rightarrow> string" where
  "sliceEnd s k = take (length s - k) s"

text \<open>\<^verbatim>\<open>toLowerCase\<close> on the ASCII letters, which is all the code applies it to.\<close>

definition toLowerChar :: "char \<Rightarrow> char" where
  "toLowerChar c =
     (let n = (of_char c :: nat) in if 65 \<le> n \<and> n \<le> 90 then char_of (n + 32) else c)"

definition toLowerCase :: "string \<Rightarrow> string" where
  "toLowerCase s = map toLowerChar s"

text \<open>\<^verbatim>\<open>s.indexOf(pat)\<close>: the first index where \<open>pat\<close> occurs, \<open>None\<close> for \<^verbatim>\<open>-1\<close>.\<close>

fun indexOfFrom :: "string \<Rightarrow> string \<Rightarrow> nat \<Rightarrow> nat option" where
  "indexOfFrom [] pat i = (if pat = [] then Some i else None)"
| "indexOfFrom (c # cs) pat i =
     (if startsWith (c # cs) pat then Some i else indexOfFrom cs pat (Suc i))"

definition indexOf :: "string \<Rightarrow> string \<Rightarrow> nat option" where
  "indexOf s pat = indexOfFrom s pat 0"

fun joinWith :: "string \<Rightarrow> string list \<Rightarrow> string" where
  "joinWith sep [] = []"
| "joinWith sep [s] = s"
| "joinWith sep (s # t # ss) = s @ sep @ joinWith sep (t # ss)"

text \<open>
  A value used as a condition: \<^verbatim>\<open>undefined\<close> and the empty string are falsy.
\<close>

definition truthy :: "string option \<Rightarrow> bool" where
  "truthy v = (case v of None \<Rightarrow> False | Some s \<Rightarrow> s \<noteq> [])"

text \<open>
  A \<^verbatim>\<open>Set<string>\<close> keeps its elements in insertion order, each once; \<^verbatim>\<open>[...set]\<close> is
  that list.
\<close>

definition setAdd :: "string list \<Rightarrow> string \<Rightarrow> string list" where
  "setAdd totalFiles x = (if x \<in> set totalFiles then totalFiles else totalFiles @ [x])"

section \<open>\<^verbatim>\<open>utils/pkg-hover-contents.ts\<close>\<close>

text \<open>
  The collaborators: \<^verbatim>\<open>hostedGitInfo.fromUrl\<close> and the \<^verbatim>\<open>https\<close> method of the host it
  finds, called with \<^verbatim>\<open>{ noGitPlus: true, noCommittish: true }\<close>; and, not among the
  sources, \<^verbatim>\<open>trimLeftSlash\<close> of \<^verbatim>\<open>utils/path\<close> and \<^verbatim>\<open>spacing\<close> of the utilities' index.
\<close>

record 'g collaborators =
  trimLeftSlash :: "string \<Rightarrow> string"
  fromUrl :: "string \<Rightarrow> 'g option"
  httpsNoGitPlusNoCommittish :: "'g \<Rightarrow> string"
  spacing :: "nat \<Rightarrow> string"

text \<open>A field that is a string, an object with an optional \<^verbatim>\<open>url\<close>, or absent.\<close>

datatype urlField = UString string | UObject "string option" | UUndefined

fun tryGetUrl :: "urlField \<Rightarrow> string option" where
  "tryGetUrl (UString val) = Some val"
| "tryGetUrl (UObject (Some url)) = Some url"
| "tryGetUrl _ = None"

text \<open>The test \<^verbatim>\<open>/^https?:\/\/.*/i\<close>: a prefix, letters in either case.\<close>

definition isHttpUrl :: "string \<Rightarrow> bool" where
  "isHttpUrl url =
     (startsWith (toLowerCase url) ''http://'' \<or> startsWith (toLowerCase url) ''https://'')"

text \<open>\<^verbatim>\<open>result.replace(/\.git$/, '')\<close>.\<close>

definition stripDotGit :: "string \<Rightarrow> string" where
  "stripDotGit s = (if endsWith s ''.git'' then sliceEnd s 4 else s)"

text \<open>
  \<^verbatim>\<open>
  function extractGitUrl(url: string) {
      let result: string | undefined;
      if (/^https?:\/\/.*/i.test(url)) {
          result = url;
      } else {
          const gitInfo = hostedGitInfo.fromUrl(trimLeftSlash(url));
          if (gitInfo) result = gitInfo.https({ noGitPlus: true, noCommittish: true });
      }
      if (result) result = result.replace(/\.git$/, '');
      return result;
  }
  \<close>
\<close>

definition extractGitUrl :: "'g collaborators \<Rightarrow> string \<Rightarrow> string option" where
  "extractGitUrl C url =
     (let result =
            (if isHttpUrl url then Some url
             else (case fromUrl C (trimLeftSlash C url) of
                     Some gitInfo \<Rightarrow> Some (httpsNoGitPlusNoCommittish C gitInfo)
                   | None \<Rightarrow> None))
      in if truthy result then map_option stripDotGit result else result)"

record packageJson =
  homepage :: urlField
  repository :: urlField
  bugs :: urlField

record packageInfo =
  pkgName :: string
  installedVersion :: "string option"
  isBuiltinModule :: bool
  packageJson :: packageJson

definition packageNameAndVersion :: "packageInfo \<Rightarrow> string" where
  "packageNameAndVersion I =
     pkgName I @ (if truthy (installedVersion I) then ''@'' @ the (installedVersion I) else [])"

text \<open>
  The first half of the getter \<^verbatim>\<open>pkgWebsites\<close>: the homepage and repository URLs it
  settles on.
  \<^verbatim>\<open>
  homepageUrl = tryGetUrl(packageInfo.packageJson.homepage);
  repositoryUrl = tryGetUrl(packageInfo.packageJson.repository);
  if (repositoryUrl) repositoryUrl = extractGitUrl(repositoryUrl);
  if (!repositoryUrl) {
      let bugsUrl = tryGetUrl(packageInfo.packageJson.bugs);
      if (bugsUrl) {
          const idx = bugsUrl.indexOf('/issues');
          if (idx !== -1) bugsUrl = bugsUrl.slice(0, idx);
          repositoryUrl = extractGitUrl(bugsUrl);
      }
  }
  if (repositoryUrl === homepageUrl) homepageUrl = undefined;
  \<close>
\<close>

definition repositoryFromField :: "'g collaborators \<Rightarrow> packageInfo \<Rightarrow> string option" where
  "repositoryFromField C I =
     (let repositoryUrl = tryGetUrl (repository (packageJson I))
      in if truthy repositoryUrl then extractGitUrl C (the repositoryUrl) else repositoryUrl)"

definition stripIssues :: "string \<Rightarrow> string" where
  "stripIssues bugsUrl =
     (case indexOf bugsUrl ''/issues'' of None \<Rightarrow> bugsUrl | Some idx \<Rightarrow> take idx bugsUrl)"

definition repositoryUrlOf :: "'g collaborators \<Rightarrow> packageInfo \<Rightarrow> string option" where
  "repositoryUrlOf C I =
     (let repositoryUrl = repositoryFromField C I
      in if \<not> truthy repositoryUrl
         then (let bugsUrl = tryGetUrl (bugs (packageJson I))
               in if truthy bugsUrl then extractGitUrl C (stripIssues (the bugsUrl))
                  else repositoryUrl)
         else repositoryUrl)"

definition homepageUrlOf :: "'g collaborators \<Rightarrow> packageInfo \<Rightarrow> string option" where
  "homepageUrlOf C I =
     (let homepageUrl = tryGetUrl (homepage (packageJson I))
      in if repositoryUrlOf C I = homepageUrl then None else homepageUrl)"

text \<open>The second half: the links, in order, and their join.\<close>

definition npmUrl :: "packageInfo \<Rightarrow> string" where
  "npmUrl I =
     ''https://www.npmjs.com/package/'' @ pkgName I @
       (if truthy (installedVersion I) then ''/v/'' @ the (installedVersion I) else [])"

definition websiteInfos :: "'g collaborators \<Rightarrow> packageInfo \<Rightarrow> string list" where
  "websiteInfos C I =
     (if npmUrl I \<noteq> [] then [''[Npm]('' @ npmUrl I @ '')''] else []) @
     (if truthy (homepageUrlOf C I)
      then [''[HomePage]('' @ the (homepageUrlOf C I) @ '')''] else []) @
     (if truthy (repositoryUrlOf C I)
      then [''[Repository]('' @ the (repositoryUrlOf C I) @ '')''] else []) @
     [''[Sync Mirror](https://npmmirror.com/sync/'' @ pkgName I @ '')'',
      ''[Npm View](https://npmview.vercel.app/'' @ packageNameAndVersion I @ '')'',
      ''[Npm Trends](https://npmtrends.com/'' @ pkgName I @ '')'',
      ''[Npm Graph](https://npmgraph.js.org/?q='' @ packageNameAndVersion I @ '')'',
      ''[Npm Charts](https://npmcharts.com/compare/'' @ pkgName I @ '')'',
      ''[Npm Stats](https://npm-stat.com/charts.html?package='' @ pkgName I @ '')'',
      ''[Moiva](https://moiva.io/?npm='' @ pkgName I @ '')'',
      ''[RunKit](https://npm.runkit.com/'' @ pkgName I @ '')'']"

definition pkgWebsites :: "'g collaborators \<Rightarrow> packageInfo \<Rightarrow> string option" where
  "pkgWebsites C I =
     (if isBuiltinModule I then None else Some (joinWith (spacing C 4) (websiteInfos C I)))"

section \<open>The glob collaborator\<close>

text \<open>
  \<^verbatim>\<open>globby(patterns, options)\<close> is a collaborator, taken by what it documents. A pattern
  that starts with \<^verbatim>\<open>!\<close> is negative. Every other pattern is a task of its own, ignoring
  the negative patterns that come after it in the list (without their \<^verbatim>\<open>!\<close>); the
  results of the tasks are united, each file once, and the files the ignore files rule
  out are dropped. The files walked beneath \<open>cwd\<close> (all files, dot files too, no
  symbolic link followed), the two matchers (of a pattern, and of a pattern to ignore,
  each with the expansion of directory names) and the ignore-file rule belong to the
  environment.
\<close>

definition isNegativePattern :: "string \<Rightarrow> bool" where
  "isNegativePattern p = startsWith p ''!''"

fun globTasks :: "string list \<Rightarrow> (string \<times> string list) list" where
  "globTasks [] = []"
| "globTasks (p # ps) =
     (if isNegativePattern p then globTasks ps
      else (p, map (drop 1) (filter isNegativePattern ps)) # globTasks ps)"

definition runTask :: "env \<Rightarrow> string \<Rightarrow> string \<times> string list \<Rightarrow> string list" where
  "runTask E cwd task =
     filter (\<lambda>f. gmatch E cwd (fst task) f \<and> \<not> list_ex (\<lambda>ig. gignored E cwd ig f) (snd task))
       (walked E cwd)"

definition globby :: "env \<Rightarrow> string \<Rightarrow> string list \<Rightarrow> string list" where
  "globby E cwd patterns =
     filter (\<lambda>f. \<not> ignoredByFiles E cwd f)
       (foldl setAdd [] (concat (map (runTask E cwd) (globTasks patterns))))"

section \<open>\<^verbatim>\<open>codeLens/packageJsonFiles.ts\<close>\<close>

definition filesLiteral :: string where
  "filesLiteral = ''files''"

definition defaultIncludedFiles :: "string list" where
  "defaultIncludedFiles = [''package.json'', ''README.md'', ''LICENSE.md'', ''LICENCE.md'']"

definition defaultIgnoredPatterns :: "string list" where
  "defaultIgnoredPatterns =
     map (\<lambda>p. ''!'' @ p)
       [''node_modules'', ''package-lock.json'', ''**/.gitignore'', ''**/.npmignore'',
        ''**/npm-debug.log'', ''**/.npmrc'', ''**/.git'', ''**/CVS'', ''**/.svn'', ''**/.hg'',
        ''**/.lock-wscript'', ''**/.wafpickle-N'', ''**/.*.swp'', ''**/.DS_Store'', ''**/._*'',
        ''**/config.gypi'', ''**/*.orig'']"

text \<open>
  A position of the document is the offset it stands for; a range is a pair of them,
  and a \<^verbatim>\<open>CodeLens\<close> is its range.
\<close>

type_synonym range = "int \<times> int"

record patternItem =
  isNegated :: bool
  pattern :: string
  range :: range

datatype lensType = IncludeLens | ExcludeLens | AllLens

record codeLensData =
  lensType :: lensType
  position :: int
  referenceFiles :: "string list promise"

text \<open>
  The fields of the provider that \<^verbatim>\<open>getCodeLenses\<close> writes. The map is keyed by lens
  objects, each new, so an entry is never replaced: it is the list of entries in the
  order they were set.
\<close>

record provider =
  negativePatterns :: "string list"
  codeLensDataMap :: "(range \<times> codeLensData) list"

text \<open>
  The first loop: every child of \<^verbatim>\<open>files\<close> must be a string; the first that is not ends
  \<^verbatim>\<open>getCodeLenses\<close> (\<open>None\<close>). The negated patterns met so far have been pushed to the
  provider by then. \<^verbatim>\<open>jsoncStringNodeToRange\<close> is not among the sources: \<open>rangeOf\<close>.
\<close>

fun collectPatterns ::
  "(node \<Rightarrow> range) \<Rightarrow> node list \<Rightarrow> string list \<Rightarrow> patternItem list
     \<Rightarrow> patternItem list option \<times> string list" where
  "collectPatterns rangeOf [] negs patternList = (Some patternList, negs)"
| "collectPatterns rangeOf (patternNode # rest) negs patternList =
     (case stringValue patternNode of
        None \<Rightarrow> (None, negs)
      | Some pat \<Rightarrow>
          collectPatterns rangeOf rest
            (if startsWith pat ''!'' then negs @ [pat] else negs)
            (patternList @
               [\<lparr>isNegated = startsWith pat ''!'', pattern = pat, range = rangeOf patternNode\<rparr>]))"

text \<open>
  The second loop starts one expansion per item.
  \<^verbatim>\<open>
  const patterns = item.isNegated
      ? [item.pattern.slice(1)]
      : [item.pattern, ...this._negativePatterns];
  const relativeFiles = await globby([...patterns, ...defaultIgnoredPatterns], {cwd, ...});
  return relativeFiles.map((file) => {
      const absFile = resolve(cwd, file);
      if (!item.isNegated) totalFiles.add(absFile);
      return absFile;
  });
  \<close>
\<close>

definition itemPatterns :: "string list \<Rightarrow> patternItem \<Rightarrow> string list" where
  "itemPatterns negs item =
     (if isNegated item then [drop 1 (pattern item)] else pattern item # negs)"

definition relativeFiles :: "env \<Rightarrow> string \<Rightarrow> string list \<Rightarrow> patternItem \<Rightarrow> string list" where
  "relativeFiles E cwd negs item = globby E cwd (itemPatterns negs item @ defaultIgnoredPatterns)"

definition expandItem :: "env \<Rightarrow> string \<Rightarrow> string list \<Rightarrow> patternItem \<Rightarrow> string list" where
  "expandItem E cwd negs item =
     map (\<lambda>file. resolve (processCwd E) [cwd, file]) (relativeFiles E cwd negs item)"

text \<open>
  When the expansion of an item completes, its files go into \<open>totalFiles\<close>, unless the
  item is negated. The expansions complete in some order; \<open>totalFilesAfter\<close> is the set
  once those of \<open>completed\<close> have, in that order.
\<close>

definition completeItem ::
  "env \<Rightarrow> string \<Rightarrow> string list \<Rightarrow> string list \<Rightarrow> patternItem \<Rightarrow> string list" where
  "completeItem E cwd negs totalFiles item =
     (if isNegated item then totalFiles else foldl setAdd totalFiles (expandItem E cwd negs item))"

definition totalFilesAfter ::
  "env \<Rightarrow> string \<Rightarrow> string list \<Rightarrow> patternItem list \<Rightarrow> string list" where
  "totalFilesAfter E cwd negs completed = foldl (completeItem E cwd negs) [] completed"

text \<open>
  \<^verbatim>\<open>
  const addFileWhenExists = async (absPath: string) => {
      if (await pathExists(absPath)) { totalFiles.add(absPath); return true; }
      return false;
  };
  \<close>
\<close>

definition addFileWhenExists :: "env \<Rightarrow> string \<Rightarrow> string list \<Rightarrow> (string list \<times> bool) promise" where
  "addFileWhenExists E absPath totalFiles =
     thenP (pathExists E absPath)
       (\<lambda>found. Inr (if found then (setAdd totalFiles absPath, True) else (totalFiles, False)))"

text \<open>\<^verbatim>\<open>for (const p of candidates) { if (await addFileWhenExists(p)) break; }\<close>\<close>

fun tryCandidates :: "env \<Rightarrow> string list \<Rightarrow> string list \<Rightarrow> string list promise" where
  "tryCandidates E [] totalFiles = Inr totalFiles"
| "tryCandidates E (p # candidates) totalFiles =
     thenP (addFileWhenExists E p totalFiles)
       (\<lambda>(totalFiles', added). if added then Inr totalFiles' else tryCandidates E candidates totalFiles')"

definition candidatesFor :: "env \<Rightarrow> string \<Rightarrow> string \<Rightarrow> string list" where
  "candidatesFor E cwd file =
     [resolve (processCwd E) [cwd, file],
      resolve (processCwd E) [cwd, sliceEnd file 3],
      resolve (processCwd E) [cwd, toLowerCase file],
      resolve (processCwd E) [cwd, sliceEnd (toLowerCase file) 3]]"

text \<open>\<^verbatim>\<open>for (const file of defaultIncludedFiles) { ... }\<close>\<close>

fun addDefaultFiles :: "env \<Rightarrow> string \<Rightarrow> string list \<Rightarrow> string list \<Rightarrow> string list promise" where
  "addDefaultFiles E cwd [] totalFiles = Inr totalFiles"
| "addDefaultFiles E cwd (file # files) totalFiles =
     thenP
       (if endsWith (resolve (processCwd E) [cwd, file]) ''.md''
        then tryCandidates E (candidatesFor E cwd file) totalFiles
        else thenP (addFileWhenExists E (resolve (processCwd E) [cwd, file]) totalFiles)
               (\<lambda>(totalFiles', _). Inr totalFiles'))
       (\<lambda>totalFiles'. addDefaultFiles E cwd files totalFiles')"

text \<open>
  \<^verbatim>\<open>
  const mainProperty = findNodeAtLocation(root, ['main']);
  if (mainProperty && mainProperty.type === 'property' &&
      mainProperty.children![0].type === 'string' && ...) {
      const mainEntry = resolve(cwd, mainProperty.value);
      await addFileWhenExists(mainEntry);
  }
  \<close>
  Reading \<^verbatim>\<open>.type\<close> of a missing first child throws, and so does \<^verbatim>\<open>resolve\<close> of a
  \<^verbatim>\<open>value\<close> that is not a string.
\<close>

definition addMainEntry :: "env \<Rightarrow> string \<Rightarrow> node \<Rightarrow> string list \<Rightarrow> string list promise" where
  "addMainEntry E cwd root totalFiles =
     (case findNodeAtLocation root [''main''] of
        None \<Rightarrow> Inr totalFiles
      | Some (_, mainProperty) \<Rightarrow>
          if nodeType mainProperty \<noteq> TProperty then Inr totalFiles
          else (case children mainProperty of
                  [] \<Rightarrow> Inl TypeError
                | key # _ \<Rightarrow>
                    if nodeType key \<noteq> TString then Inr totalFiles
                    else (case stringValue mainProperty of
                            None \<Rightarrow> Inl TypeError
                          | Some v \<Rightarrow>
                              thenP (addFileWhenExists E (resolve (processCwd E) [cwd, v]) totalFiles)
                                (\<lambda>(totalFiles', _). Inr totalFiles'))))"

text \<open>
  The promise of the lens of type \<^verbatim>\<open>all\<close>: once the expansions of the items that are not
  negated have completed (in the order \<open>completed\<close>), the default files are added when
  \<^verbatim>\<open>includeDefaultPackedFiles\<close> is set.
\<close>

definition allFiles ::
  "env \<Rightarrow> bool \<Rightarrow> node \<Rightarrow> string \<Rightarrow> string list \<Rightarrow> patternItem list \<Rightarrow> string list promise" where
  "allFiles E includeDefaultPackedFiles root cwd negs completed =
     (let totalFiles = totalFilesAfter E cwd negs completed
      in if \<not> includeDefaultPackedFiles then Inr totalFiles
         else thenP (addDefaultFiles E cwd defaultIncludedFiles totalFiles)
                (\<lambda>totalFiles'. addMainEntry E cwd root totalFiles'))"

text \<open>
  \<^verbatim>\<open>getCodeLenses\<close>, after the call of the base class's method (which is not among the
  sources): from the parsed root, the path of the document and the provider as it
  stands then, to the lenses returned (\<open>None\<close> for a plain \<^verbatim>\<open>return\<close>) and the provider
  afterwards. One expansion is started per item, the negated ones too; \<open>completion\<close>
  gives those that have completed when the promise of the lens of type \<^verbatim>\<open>all\<close> goes on
  after \<^verbatim>\<open>Promise.all(promises)\<close>, in the order in which they completed.
\<close>

definition getCodeLenses ::
  "env \<Rightarrow> bool \<Rightarrow> (node \<Rightarrow> range) \<Rightarrow> (patternItem list \<Rightarrow> patternItem list)
     \<Rightarrow> node option \<Rightarrow> string \<Rightarrow> provider \<Rightarrow> range list option \<times> provider" where
  "getCodeLenses E includeDefaultPackedFiles rangeOf completion parsed fsPath this =
     (case parsed of
        None \<Rightarrow> (None, this)
      | Some root \<Rightarrow>
          (case findNodeAtLocation root [''files''] of
             None \<Rightarrow> (None, this)
           | Some (_, filesPropertyNode) \<Rightarrow>
               if children filesPropertyNode = [] then (None, this)
               else
                 (case collectPatterns rangeOf (children filesPropertyNode)
                         (negativePatterns this) [] of
                    (None, negs) \<Rightarrow> (None, this\<lparr>negativePatterns := negs\<rparr>)
                  | (Some patternList, negs) \<Rightarrow>
                      let cwd = dirname fsPath;
                          itemEntries =
                            map (\<lambda>item.
                                   (range item,
                                    \<lparr>lensType = (if isNegated item then ExcludeLens else IncludeLens),
                                     position = fst (range item),
                                     referenceFiles = Inr (expandItem E cwd negs item)\<rparr>))
                              patternList;
                          start = offset filesPropertyNode;
                          end = offset filesPropertyNode + int (length filesLiteral);
                          allEntry =
                            ((start, end),
                             \<lparr>lensType = AllLens, position = start,
                              referenceFiles =
                                allFiles E includeDefaultPackedFiles root cwd negs
                                  (completion patternList)\<rparr>)
                      in (Some (map range patternList @ [(start, end)]),
                          this\<lparr>negativePatterns := negs,
                               codeLensDataMap :=
                                 codeLensDataMap this @ itemEntries @ [allEntry]\<rparr>))))"

section \<open>What the specification says, in its own words\<close>

text \<open>
  The specification of \<^verbatim>\<open>findInstallDir\<close>: a directory holds the package when both
  \<^verbatim>\<open>node_modules/<name>\<close> and its \<^verbatim>\<open>package.json\<close> exist; the directories looked at are
  the starting directory and its ancestors up to the boundary root; the answer is the
  install directory under the nearest of them that holds the package, or none.
\<close>

definition installedAt :: "env \<Rightarrow> string \<Rightarrow> string \<Rightarrow> bool" where
  "installedAt E packageName dir =
     (pathExists E (resolve (processCwd E) [dir, NODE_MODULES, packageName]) = Inr True \<and>
      pathExists E (resolve (processCwd E)
                      [resolve (processCwd E) [dir, NODE_MODULES, packageName], PACKAGE_JSON])
        = Inr True)"

fun ancestors :: "nat \<Rightarrow> string \<Rightarrow> string list" where
  "ancestors 0 dir = [dir]"
| "ancestors (Suc k) dir = dir # ancestors k (dirname dir)"

definition nearestInstallDir_spec :: "env \<Rightarrow> string \<Rightarrow> string list \<Rightarrow> string option" where
  "nearestInstallDir_spec E packageName dirs =
     map_option (\<lambda>dir. resolve (processCwd E) [dir, NODE_MODULES, packageName])
       (List.find (installedAt E packageName) dirs)"

text \<open>
  The specification of the derived repository URL: a canonical HTTPS URL with no
  trailing \<^verbatim>\<open>.git\<close> and no commit-ish suffix.
\<close>

definition canonicalHttpsUrl_spec :: "string \<Rightarrow> bool" where
  "canonicalHttpsUrl_spec url =
     (startsWith url ''https://'' \<and> \<not> endsWith url ''.git'' \<and> CHR ''#'' \<notin> set url)"

text \<open>
  The specification of the default files: of the candidates of a group, the first that
  exists is the one added.
\<close>

definition firstExisting :: "env \<Rightarrow> string list \<Rightarrow> string option" where
  "firstExisting E candidates = List.find (\<lambda>p. pathExists E p = Inr True) candidates"

section \<open>Sample inputs\<close>

text \<open>
  A workspace \<^verbatim>\<open>/w\<close> with the package \<^verbatim>\<open>foo\<close> installed at its top and a source file
  two directories below.
\<close>

definition workspaceFs :: env where
  "workspaceFs =
     \<lparr>access = (\<lambda>p. if p \<in> set [''/w/node_modules/foo'', ''/w/node_modules/foo/package.json'',
                                   ''/w/app/src/index.js'']
                      then Inr () else Inl (SystemError ''ENOENT'')),
      readdir = (\<lambda>d. if d = ''/w/node_modules'' then Inr [''foo'']
                      else if d = ''/w/node_modules/foo'' then Inr [''package.json'']
                      else Inl (SystemError ''ENOENT'')),
      realpath = (\<lambda>p. Inr p),
      processCwd = ''/'',
      walked = (\<lambda>_. []),
      gmatch = (\<lambda>_ p f. p = f),
      gignored = (\<lambda>_ p f. p = f),
      ignoredByFiles = (\<lambda>_ _. False)\<rparr>"

text \<open>The same workspace, asked about a path that does not exist.\<close>

definition unresolvedFs :: env where
  "unresolvedFs = workspaceFs\<lparr>realpath := (\<lambda>p. Inl (SystemError ''ENOENT''))\<rparr>"

text \<open>A \<^verbatim>\<open>getRoot\<close> that answers the root of the file system.\<close>

definition fileSystemRoot :: "string \<Rightarrow> string" where
  "fileSystemRoot path = ''/''"

text \<open>The manifest \<^verbatim>\<open>{"files": ["dist"]}\<close>.\<close>

definition filesOnlyManifest :: node where
  "filesOnlyManifest =
     NObject 0 19 [NProperty 1 17 [NString 1 7 ''files'', NArray 10 8 [NString 11 6 ''dist'']]]"

text \<open>
  \<^verbatim>\<open>hosted-git-info\<close> on the one URL of the specification's example, and plausible
  bodies for the two helpers that are not among the sources.
\<close>

definition hostedSample :: "string collaborators" where
  "hostedSample =
     \<lparr>trimLeftSlash = dropWhile (\<lambda>c. c = CHR ''/''),
      fromUrl = (\<lambda>u. if u = ''git+https://github.com/user/repo.git#main''
                      then Some ''https://github.com/user/repo.git'' else None),
      httpsNoGitPlusNoCommittish = (\<lambda>g. g),
      spacing = (\<lambda>n. concat (replicate n ''&nbsp;''))\<rparr>"

text \<open>A package with a homepage and a bug tracker, and no repository field.\<close>

definition bugsOnlyPackage :: packageInfo where
  "bugsOnlyPackage =
     \<lparr>pkgName = ''repo'', installedVersion = Some ''1.2.3'', isBuiltinModule = False,
      packageJson = \<lparr>homepage = UString ''https://github.com/user/repo'',
                     repository = UUndefined,
                     bugs = UObject (Some ''https://github.com/user/repo/issues'')\<rparr>\<rparr>"

text \<open>
  A package directory \<^verbatim>\<open>/pkg\<close> on a case-sensitive file system, holding the files
  named; both matchers are those of patterns without wildcards (the file itself, or what
  lies beneath the directory named).
\<close>

definition pkgFs :: "string list \<Rightarrow> env" where
  "pkgFs names =
     \<lparr>access = (\<lambda>p. if p \<in> set (map (\<lambda>n. ''/pkg/'' @ n) names)
                      then Inr () else Inl (SystemError ''ENOENT'')),
      readdir = (\<lambda>d. if d = ''/pkg'' then Inr names else Inl (SystemError ''ENOENT'')),
      realpath = (\<lambda>p. Inr p),
      processCwd = ''/'',
      walked = (\<lambda>d. if d = ''/pkg'' then names else []),
      gmatch = (\<lambda>_ p f. f = p \<or> startsWith f (p @ ''/'')),
      gignored = (\<lambda>_ p f. f = p \<or> startsWith f (p @ ''/'')),
      ignoredByFiles = (\<lambda>_ _. False)\<rparr>"

text \<open>A plausible \<^verbatim>\<open>jsoncStringNodeToRange\<close>: the text between the quotes.\<close>

definition stringNodeRange :: "node \<Rightarrow> range" where
  "stringNodeRange n = (offset n + 1, offset n + nlength n - 1)"

definition freshProvider :: provider where
  "freshProvider = \<lparr>negativePatterns = [], codeLensDataMap = []\<rparr>"

text \<open>\<^verbatim>\<open>{"files": ["index.js", "!package.json"]}\<close>\<close>
definition negatedManifest :: node where
  "negatedManifest =
     NObject 0 40
       [NProperty 1 38
          [NString 1 7 ''files'',
           NArray 10 29 [NString 11 10 ''index.js'', NString 23 15 ''!package.json'']]]"

text \<open>\<^verbatim>\<open>{"files": ["lib"]}\<close>\<close>
definition libManifest :: node where
  "libManifest =
     NObject 0 18 [NProperty 1 16 [NString 1 7 ''files'', NArray 10 7 [NString 11 5 ''lib'']]]"

text \<open>\<^verbatim>\<open>{"files": ["dist", 1]}\<close>\<close>
definition malformedManifest :: node where
  "malformedManifest =
     NObject 0 22
       [NProperty 1 20
          [NString 1 7 ''files'', NArray 10 11 [NString 11 6 ''dist'', NNumber 19 1 ''1'']]]"

text \<open>\<^verbatim>\<open>{"files": ["index.js", "!lib/b.js"]}\<close> and \<^verbatim>\<open>{"files": ["index.js"]}\<close>\<close>

definition notLibBManifest :: node where
  "notLibBManifest =
     NObject 0 36
       [NProperty 1 34
          [NString 1 7 ''files'',
           NArray 10 25 [NString 11 10 ''index.js'', NString 23 11 ''!lib/b.js'']]]"

definition indexOnlyManifest :: node where
  "indexOnlyManifest =
     NObject 0 23
       [NProperty 1 21 [NString 1 7 ''files'', NArray 10 12 [NString 11 10 ''index.js'']]]"

definition lowerCasePkg :: env where
  "lowerCasePkg = pkgFs [''readme.md'', ''index.js'', ''lib/a.js'', ''lib/b.js'', ''package.json'']"

definition mixedCasePkg :: env where
  "mixedCasePkg = pkgFs [''Readme.md'', ''package.json'']"

definition indexJsItem :: patternItem where
  "indexJsItem = \<lparr>isNegated = False, pattern = ''index.js'', range = (12, 20)\<rparr>"

definition libItem :: patternItem where
  "libItem = \<lparr>isNegated = False, pattern = ''lib'', range = (12, 15)\<rparr>"

section \<open>Properties of \<^verbatim>\<open>pathExists\<close>\<close>

text \<open>
  Claim C10. \<^verbatim>\<open>pathExists\<close> never rejects: it is fulfilled with a boolean, which is true
  exactly when \<^verbatim>\<open>access\<close> succeeds on the path and \<^verbatim>\<open>readdir\<close> of its directory succeeds
  with a listing that holds the path's base name, compared as strings (so character for
  character, whatever the file system's own case rule is). Every file-system error
  therefore gives false.
\<close>

theorem pathExists_case_sensitive:
  "pathExists E path =
     Inr (access E path = Inr () \<and>
          (\<exists>names. readdir E (dirname path) = Inr names \<and> basename path \<in> set names))"
  by (cases "access E path"; cases "readdir E (dirname path)")
     (simp_all add: pathExists_def thenP_def catchP_def)

section \<open>Properties of \<^verbatim>\<open>findPkgInstallDir\<close>\<close>

lemma pathExists_fulfilled: "\<exists>b. pathExists E path = Inr b"
  by (cases "access E path"; cases "readdir E (dirname path)")
     (auto simp: pathExists_def thenP_def catchP_def)

lemma walkUp_step:
  "walkUp E packageName endPath dir =
     (if installedAt E packageName dir
      then Some (Inr (Some (resolve (processCwd E) [dir, NODE_MODULES, packageName])))
      else if dir = endPath then Some (Inr None)
      else walkUp E packageName endPath (dirname dir))"
proof -
  obtain a where a: "pathExists E (resolve (processCwd E) [dir, NODE_MODULES, packageName]) = Inr a"
    using pathExists_fulfilled by blast
  obtain b where b: "pathExists E (resolve (processCwd E)
                      [resolve (processCwd E) [dir, NODE_MODULES, packageName], PACKAGE_JSON]) = Inr b"
    using pathExists_fulfilled by blast
  show ?thesis
    by (subst walkUp.simps) (simp add: a b installedAt_def)
qed

lemma walkUp_ancestors:
  "last (ancestors k dir) = endPath \<Longrightarrow> endPath \<notin> set (butlast (ancestors k dir)) \<Longrightarrow>
   walkUp E packageName endPath dir =
     Some (Inr (nearestInstallDir_spec E packageName (ancestors k dir)))"
proof (induction k arbitrary: dir)
  case 0
  then show ?case
    by (subst walkUp_step) (simp add: nearestInstallDir_spec_def)
next
  case (Suc k)
  have nonempty: "ancestors k (dirname dir) \<noteq> []" by (cases k) simp_all
  from Suc.prems nonempty have ne: "dir \<noteq> endPath"
    and l: "last (ancestors k (dirname dir)) = endPath"
    and nb: "endPath \<notin> set (butlast (ancestors k (dirname dir)))"
    by auto
  show ?case
    using Suc.IH [OF l nb] ne
    by (subst walkUp_step) (simp add: nearestInstallDir_spec_def)
qed

lemma findPkgInstallDir_chain:
  assumes "realpath E baseFilePath = Inr real"
    and "last (ancestors k (dirname real)) = getRoot real"
    and "getRoot real \<notin> set (butlast (ancestors k (dirname real)))"
  shows "findPkgInstallDir E getRoot packageName baseFilePath =
           Some (Inr (nearestInstallDir_spec E packageName (ancestors k (dirname real))))"
  using assms by (simp add: findPkgInstallDir_def walkUp_ancestors)

text \<open>
  Claim C3, as amended. When \<^verbatim>\<open>realpath\<close> rejects the starting path, \<^verbatim>\<open>findPkgInstallDir\<close>
  rejects with the same error. When it resolves the path to \<open>real\<close> and the boundary root
  \<open>getRoot real\<close> is the \<open>k\<close>-th ancestor of the directory of \<open>real\<close>, and no nearer one,
  \<^verbatim>\<open>findPkgInstallDir\<close> returns, and what it returns is what the specification says over
  the directories from the starting one up to the boundary root: none exactly when none
  of them holds the package, and otherwise \<^verbatim>\<open>node_modules/<name>\<close> under the nearest that
  does.
\<close>

theorem findPkgInstallDir_nearest:
  "(realpath E baseFilePath = Inl e \<longrightarrow>
      findPkgInstallDir E getRoot packageName baseFilePath = Some (Inl e)) \<and>
   (realpath E baseFilePath = Inr real \<and>
    last (ancestors k (dirname real)) = getRoot real \<and>
    getRoot real \<notin> set (butlast (ancestors k (dirname real))) \<longrightarrow>
      findPkgInstallDir E getRoot packageName baseFilePath =
        Some (Inr (nearestInstallDir_spec E packageName (ancestors k (dirname real)))) \<and>
      (findPkgInstallDir E getRoot packageName baseFilePath = Some (Inr None) \<longleftrightarrow>
         \<not> (\<exists>dir \<in> set (ancestors k (dirname real)). installedAt E packageName dir)) \<and>
      (\<forall>dir. List.find (installedAt E packageName) (ancestors k (dirname real)) = Some dir \<longrightarrow>
         findPkgInstallDir E getRoot packageName baseFilePath =
           Some (Inr (Some (resolve (processCwd E) [dir, NODE_MODULES, packageName])))))"
proof (intro conjI impI allI)
  assume "realpath E baseFilePath = Inl e"
  then show "findPkgInstallDir E getRoot packageName baseFilePath = Some (Inl e)"
    by (simp add: findPkgInstallDir_def)
next
  assume a: "realpath E baseFilePath = Inr real \<and>
    last (ancestors k (dirname real)) = getRoot real \<and>
    getRoot real \<notin> set (butlast (ancestors k (dirname real)))"
  then show run: "findPkgInstallDir E getRoot packageName baseFilePath =
      Some (Inr (nearestInstallDir_spec E packageName (ancestors k (dirname real))))"
    using findPkgInstallDir_chain by blast
  have "nearestInstallDir_spec E packageName (ancestors k (dirname real)) = None \<longleftrightarrow>
      \<not> (\<exists>dir \<in> set (ancestors k (dirname real)). installedAt E packageName dir)"
    by (auto simp: nearestInstallDir_spec_def find_None_iff)
  with run show "findPkgInstallDir E getRoot packageName baseFilePath = Some (Inr None) \<longleftrightarrow>
         \<not> (\<exists>dir \<in> set (ancestors k (dirname real)). installedAt E packageName dir)"
    by simp
  fix dir
  assume "List.find (installedAt E packageName) (ancestors k (dirname real)) = Some dir"
  with run show "findPkgInstallDir E getRoot packageName baseFilePath =
           Some (Inr (Some (resolve (processCwd E) [dir, NODE_MODULES, packageName])))"
    by (simp add: nearestInstallDir_spec_def)
qed

lemma workspace_realpath: "realpath workspaceFs p = Inr p"
  by (simp add: workspaceFs_def)

lemma workspace_ancestors:
  "ancestors 3 (dirname ''/w/app/src/index.js'') = [''/w/app/src'', ''/w/app'', ''/w'', ''/'']"
  by (simp add: dirname_def isSlash_def numeral_3_eq_3)

lemma workspace_nearest:
  "nearestInstallDir_spec workspaceFs ''foo'' [''/w/app/src'', ''/w/app'', ''/w'', ''/'']
     = Some ''/w/node_modules/foo''"
  by code_simp

theorem findPkgInstallDir_nearest_witness:
  "realpath workspaceFs ''/w/app/src/index.js'' = Inr ''/w/app/src/index.js'' \<and>
   last (ancestors 3 (dirname ''/w/app/src/index.js'')) = fileSystemRoot ''/w/app/src/index.js'' \<and>
   fileSystemRoot ''/w/app/src/index.js''
     \<notin> set (butlast (ancestors 3 (dirname ''/w/app/src/index.js''))) \<and>
   findPkgInstallDir workspaceFs fileSystemRoot ''foo'' ''/w/app/src/index.js''
     = Some (Inr (Some ''/w/node_modules/foo'')) \<and>
   realpath unresolvedFs ''/w/app/gone.js'' = Inl (SystemError ''ENOENT'') \<and>
   findPkgInstallDir unresolvedFs fileSystemRoot ''foo'' ''/w/app/gone.js''
     = Some (Inl (SystemError ''ENOENT''))"
proof -
  have r: "realpath workspaceFs ''/w/app/src/index.js'' = Inr ''/w/app/src/index.js''"
    by (rule workspace_realpath)
  have l: "last (ancestors 3 (dirname ''/w/app/src/index.js'')) = fileSystemRoot ''/w/app/src/index.js''"
    by (simp add: workspace_ancestors fileSystemRoot_def)
  have n: "fileSystemRoot ''/w/app/src/index.js''
             \<notin> set (butlast (ancestors 3 (dirname ''/w/app/src/index.js'')))"
    by (simp add: workspace_ancestors fileSystemRoot_def)
  from findPkgInstallDir_nearest
         [of workspaceFs "''/w/app/src/index.js''" _ fileSystemRoot "''foo''"
             "''/w/app/src/index.js''" 3] r l n
  have "findPkgInstallDir workspaceFs fileSystemRoot ''foo'' ''/w/app/src/index.js''
     = Some (Inr (nearestInstallDir_spec workspaceFs ''foo''
                    (ancestors 3 (dirname ''/w/app/src/index.js''))))"
    by blast
  then have f: "findPkgInstallDir workspaceFs fileSystemRoot ''foo'' ''/w/app/src/index.js''
     = Some (Inr (Some ''/w/node_modules/foo''))"
    by (simp only: workspace_ancestors workspace_nearest)
  have u: "realpath unresolvedFs ''/w/app/gone.js'' = Inl (SystemError ''ENOENT'')"
    by (simp add: unresolvedFs_def)
  from findPkgInstallDir_nearest
         [of unresolvedFs "''/w/app/gone.js''" "SystemError ''ENOENT''" fileSystemRoot "''foo''"] u
  have g: "findPkgInstallDir unresolvedFs fileSystemRoot ''foo'' ''/w/app/gone.js''
     = Some (Inl (SystemError ''ENOENT''))"
    by blast
  show ?thesis by (intro conjI r l n f u g)
qed

text \<open>
  Claim C3, as stated, fails: for a starting path that \<^verbatim>\<open>realpath\<close> cannot resolve, no
  directory above it holds the package \<^verbatim>\<open>bar\<close>, and the function does not return none:
  it rejects.
\<close>

theorem findPkgInstallDir_rejects_unresolved:
  "findPkgInstallDir unresolvedFs fileSystemRoot ''bar'' ''/w/app/gone.js''
     = Some (Inl (SystemError ''ENOENT'')) \<and>
   ancestors 2 (dirname ''/w/app/gone.js'') = [''/w/app'', ''/w'', ''/''] \<and>
   \<not> installedAt unresolvedFs ''bar'' ''/w/app'' \<and>
   \<not> installedAt unresolvedFs ''bar'' ''/w'' \<and>
   \<not> installedAt unresolvedFs ''bar'' ''/''"
  by code_simp

section \<open>Properties of \<^verbatim>\<open>getPkgNameAndVersionFromDocPosition\<close>\<close>

lemma nodeAt_append:
  "nodeAt n (p @ q) = (case nodeAt n p of None \<Rightarrow> None | Some m \<Rightarrow> nodeAt m q)"
  by (induction n p rule: nodeAt.induct) simp_all

lemma findNodeAtOffset_valid:
  "findNodeAtOffset n off = Some (p, m) \<Longrightarrow> nodeAt n p = Some m"
  "findInChildren cs i off = Some (p, m) \<Longrightarrow>
     \<exists>j q. p = (i + j) # q \<and> j < length cs \<and> nodeAt (cs ! j) q = Some m"
proof (induction n off and cs i off arbitrary: p m and p m rule: findNodeAtOffset_findInChildren.induct)
  case (9 c cs i off)
  show ?case
  proof (cases "findNodeAtOffset c off")
    case None
    with "9.prems" have le: "offset c \<le> off" and rec: "findInChildren cs (Suc i) off = Some (p, m)"
      by (auto split: if_splits)
    from "9.IH"(2) [OF le None rec] obtain j q where
      "p = (Suc i + j) # q" "j < length cs" "nodeAt (cs ! j) q = Some m" by blast
    then show ?thesis by (intro exI [of _ "Suc j"] exI [of _ q]) simp
  next
    case (Some r)
    obtain q k where r: "r = (q, k)" by (cases r)
    with "9.prems" Some have le: "offset c \<le> off" and p: "p = i # q" and k: "k = m"
      by (auto split: if_splits)
    from "9.IH"(1) [OF le] Some r k have "nodeAt c q = Some m" by simp
    with p show ?thesis by (intro exI [of _ 0] exI [of _ q]) simp
  qed
qed (fastforce split: if_splits option.splits)+

lemma locate_match_only_if:
  assumes "getPkgNameAndVersionFromDocPosition validForOldPackages parsed off = Inr (Some r)"
  shows "\<exists>root par.
           parsed = Some root \<and> findNodeAtOffset root off = Some (nameNode r) \<and>
           nodeType (snd (nameNode r)) = TString \<and>
           parent root (nameNode r) = Some par \<and>
           nodeType (snd par) = TProperty \<and>
           length (children (snd par)) = 2 \<and>
           fst (nameNode r) = fst par @ [0] \<and>
           versionNode r = (fst par @ [1], children (snd par) ! 1) \<and>
           nodeType (snd (versionNode r)) = TString \<and>
           map_option fst (parent root par) \<in>
             set (map (\<lambda>path. map_option fst (findNodeAtLocation root [path])) dependenciesNodePath) \<and>
           stringValue (snd (nameNode r)) = Some (name r) \<and>
           stringValue (snd (versionNode r)) = Some (version r) \<and>
           validForOldPackages (name r)"
proof -
  from assms obtain root where root: "parsed = Some root"
    by (cases parsed) (simp_all add: getPkgNameAndVersionFromDocPosition_def)
  from assms root obtain nameN where nameN: "findNodeAtOffset root off = Some nameN"
    by (cases "findNodeAtOffset root off") (simp_all add: getPkgNameAndVersionFromDocPosition_def)
  from assms root nameN obtain par where par: "parent root nameN = Some par"
    by (cases "parent root nameN") (simp_all add: getPkgNameAndVersionFromDocPosition_def)
  from assms root nameN par show ?thesis
    by (intro exI [of _ root] exI [of _ par])
       (auto simp add: getPkgNameAndVersionFromDocPosition_def Let_def
          simp del: findNodeAtLocation.simps split: if_splits option.splits)
qed

text \<open>
  Claim C4. The claim is that the function is total and answers none wherever there is
  no match. It does not: with the cursor on a string that is the only child of its
  parent (here \<^verbatim>\<open>"dist"\<close> in \<^verbatim>\<open>{"files": ["dist"]}\<close>, offset 13), \<^verbatim>\<open>versionNode\<close> is
  \<^verbatim>\<open>undefined\<close> and \<^verbatim>\<open>versionNode.type\<close> throws before the test of the number of children
  is reached.
\<close>

theorem locate_throws_on_single_child:
  "getPkgNameAndVersionFromDocPosition validForOldPackages (Some filesOnlyManifest) 13
     = Inl TypeError"
  by (simp add: getPkgNameAndVersionFromDocPosition_def filesOnlyManifest_def
        containsOffset_def parent_def)

section \<open>Properties of \<^verbatim>\<open>extractGitUrl\<close>\<close>

lemma stripDotGit_append: "stripDotGit (u @ ''.git'') = u"
  by (simp add: stripDotGit_def endsWith_def sliceEnd_def)

lemma stripDotGit_id: "\<not> endsWith s ''.git'' \<Longrightarrow> stripDotGit s = s"
  by (simp add: stripDotGit_def)

lemma isHttpUrl_nonempty: "isHttpUrl url \<Longrightarrow> url \<noteq> []"
  by (auto simp: isHttpUrl_def startsWith_def toLowerCase_def)

text \<open>
  Claim C5, as amended. A value that starts with \<^verbatim>\<open>http://\<close> or \<^verbatim>\<open>https://\<close> (letters in
  either case) is kept as it is, but for one trailing \<^verbatim>\<open>.git\<close>, which is removed. Any
  other value gives none when \<^verbatim>\<open>hosted-git-info\<close> does not know it, and otherwise the
  https URL \<^verbatim>\<open>hosted-git-info\<close> builds for it (without \<^verbatim>\<open>git+\<close> and commit-ish), again
  without its trailing \<^verbatim>\<open>.git\<close>.
\<close>

theorem extractGitUrl_derivation:
  "(isHttpUrl url \<and> \<not> endsWith url ''.git'' \<longrightarrow> extractGitUrl C url = Some url) \<and>
   (isHttpUrl (u @ ''.git'') \<longrightarrow> extractGitUrl C (u @ ''.git'') = Some u) \<and>
   (\<not> isHttpUrl url \<and> fromUrl C (trimLeftSlash C url) = None \<longrightarrow> extractGitUrl C url = None) \<and>
   (\<not> isHttpUrl url \<and> fromUrl C (trimLeftSlash C url) = Some g \<and>
      httpsNoGitPlusNoCommittish C g = h @ ''.git'' \<longrightarrow> extractGitUrl C url = Some h)"
proof (intro conjI impI)
  assume a: "isHttpUrl url \<and> \<not> endsWith url ''.git''"
  then have "url \<noteq> []" using isHttpUrl_nonempty by blast
  with a show "extractGitUrl C url = Some url"
    by (simp add: extractGitUrl_def truthy_def stripDotGit_id)
next
  assume a: "isHttpUrl (u @ ''.git'')"
  show "extractGitUrl C (u @ ''.git'') = Some u"
    using a by (simp add: extractGitUrl_def truthy_def stripDotGit_append)
next
  assume "\<not> isHttpUrl url \<and> fromUrl C (trimLeftSlash C url) = None"
  then show "extractGitUrl C url = None"
    by (simp add: extractGitUrl_def truthy_def)
next
  assume "\<not> isHttpUrl url \<and> fromUrl C (trimLeftSlash C url) = Some g \<and>
      httpsNoGitPlusNoCommittish C g = h @ ''.git''"
  then show "extractGitUrl C url = Some h"
    by (simp add: extractGitUrl_def truthy_def stripDotGit_append)
qed

theorem extractGitUrl_derivation_witness:
  "\<not> isHttpUrl ''git+https://github.com/user/repo.git#main'' \<and>
   extractGitUrl hostedSample ''git+https://github.com/user/repo.git#main''
     = Some ''https://github.com/user/repo'' \<and>
   isHttpUrl ''https://github.com/user/repo.git'' \<and>
   extractGitUrl hostedSample ''https://github.com/user/repo.git''
     = Some ''https://github.com/user/repo''"
proof -
  have n: "\<not> isHttpUrl ''git+https://github.com/user/repo.git#main''"
    by (simp add: isHttpUrl_def startsWith_def toLowerCase_def toLowerChar_def)
  have f: "fromUrl hostedSample (trimLeftSlash hostedSample ''git+https://github.com/user/repo.git#main'')
             = Some ''https://github.com/user/repo.git''"
    by (simp add: hostedSample_def)
  have h: "httpsNoGitPlusNoCommittish hostedSample ''https://github.com/user/repo.git''
             = ''https://github.com/user/repo'' @ ''.git''"
    by (simp add: hostedSample_def)
  have y: "isHttpUrl (''https://github.com/user/repo'' @ ''.git'')"
    by (simp add: isHttpUrl_def startsWith_def toLowerCase_def toLowerChar_def)
  from extractGitUrl_derivation
         [of "''git+https://github.com/user/repo.git#main''" hostedSample
             "''https://github.com/user/repo''" "''https://github.com/user/repo.git''"
             "''https://github.com/user/repo''"]
       n f h y
  show ?thesis by simp
qed

text \<open>
  Claim C5, as stated, fails: an https URL keeps its \<^verbatim>\<open>.git\<close> and its commit-ish.
\<close>

theorem extractGitUrl_keeps_committish:
  "extractGitUrl hostedSample ''https://github.com/user/repo.git#main'' =
     Some ''https://github.com/user/repo.git#main'' \<and>
   \<not> canonicalHttpsUrl_spec ''https://github.com/user/repo.git#main''"
  by (simp add: extractGitUrl_def isHttpUrl_def startsWith_def toLowerCase_def toLowerChar_def
        truthy_def stripDotGit_def endsWith_def canonicalHttpsUrl_spec_def)

section \<open>Properties of \<^verbatim>\<open>pkgWebsites\<close>\<close>

lemma indexOfFrom_Some:
  "indexOfFrom s pat i = Some j \<Longrightarrow>
     i \<le> j \<and> j - i \<le> length s \<and> startsWith (drop (j - i) s) pat \<and>
     (\<forall>k < j - i. \<not> startsWith (drop k s) pat)"
proof (induction s pat i rule: indexOfFrom.induct)
  case (1 pat i)
  then show ?case by (simp add: startsWith_def split: if_splits)
next
  case (2 c cs pat i)
  show ?case
  proof (cases "startsWith (c # cs) pat")
    case True
    with "2.prems" show ?thesis by simp
  next
    case False
    with "2.prems" have rec: "indexOfFrom cs pat (Suc i) = Some j" by simp
    from "2.IH" [OF False rec] have ih: "Suc i \<le> j" "j - Suc i \<le> length cs"
      "startsWith (drop (j - Suc i) cs) pat" "\<forall>k < j - Suc i. \<not> startsWith (drop k cs) pat"
      by simp_all
    from ih(1) have eq: "j - i = Suc (j - Suc i)" by simp
    have "\<forall>k < j - i. \<not> startsWith (drop k (c # cs)) pat"
    proof (intro allI impI)
      fix k assume k: "k < j - i"
      show "\<not> startsWith (drop k (c # cs)) pat"
      proof (cases k)
        case 0
        with False show ?thesis by simp
      next
        case (Suc k')
        with k eq have "k' < j - Suc i" by simp
        with ih(4) Suc show ?thesis by simp
      qed
    qed
    with ih eq show ?thesis by simp
  qed
qed

lemma indexOfFrom_None:
  "indexOfFrom s pat i = None \<Longrightarrow> k \<le> length s \<Longrightarrow> \<not> startsWith (drop k s) pat"
proof (induction s pat i arbitrary: k rule: indexOfFrom.induct)
  case (1 pat i)
  then show ?case by (simp add: startsWith_def split: if_splits)
next
  case (2 c cs pat i)
  then show ?case by (cases k) (auto split: if_splits)
qed

lemma stripIssues_cut:
  assumes "\<forall>k < length pre. \<not> startsWith (drop k (pre @ ''/issues'' @ post)) ''/issues''"
  shows "stripIssues (pre @ ''/issues'' @ post) = pre"
proof (cases "indexOf (pre @ ''/issues'' @ post) ''/issues''")
  case None
  from indexOfFrom_None [OF None [unfolded indexOf_def], of "length pre"]
  show ?thesis by (simp add: startsWith_def)
next
  case (Some j)
  from indexOfFrom_Some [OF Some [unfolded indexOf_def]]
  have j: "startsWith (drop j (pre @ ''/issues'' @ post)) ''/issues''"
    and least: "\<forall>k < j. \<not> startsWith (drop k (pre @ ''/issues'' @ post)) ''/issues''"
    by simp_all
  have here: "startsWith (drop (length pre) (pre @ ''/issues'' @ post)) ''/issues''"
    by (simp add: startsWith_def)
  from least here have "\<not> length pre < j" by blast
  moreover from assms j have "\<not> j < length pre" by blast
  ultimately have "j = length pre" by simp
  with Some show ?thesis by (simp add: stripIssues_def)
qed

lemma stripIssues_absent:
  "\<forall>k \<le> length bugsUrl. \<not> startsWith (drop k bugsUrl) ''/issues'' \<Longrightarrow> stripIssues bugsUrl = bugsUrl"
  using indexOfFrom_Some [of bugsUrl "''/issues''" 0]
  by (cases "indexOf bugsUrl ''/issues''") (auto simp: stripIssues_def indexOf_def)

lemma homepage_absent:
  "homepageUrlOf C I = None \<Longrightarrow> x \<in> set (websiteInfos C I) \<Longrightarrow> \<not> startsWith x ''[HomePage](''"
  by (auto simp: websiteInfos_def truthy_def startsWith_def split: if_splits)

lemma joinWith_holds:
  "x \<in> set xs \<Longrightarrow> \<exists>a b. joinWith sep xs = a @ x @ b"
proof (induction sep xs rule: joinWith.induct)
  case (1 sep)
  then show ?case by simp
next
  case (2 sep s)
  then show ?case by (auto intro: exI [of _ "[]"])
next
  case (3 sep s t ss)
  show ?case
  proof (cases "x = s")
    case True
    then show ?thesis by (auto intro: exI [of _ "[]"])
  next
    case False
    with 3 obtain a b where "joinWith sep (t # ss) = a @ x @ b" by auto
    then have "joinWith sep (s # t # ss) = (s @ sep @ a) @ x @ b" by simp
    then show ?thesis by blast
  qed
qed



section \<open>Properties of the resolved file set\<close>

lemma set_setAdd: "set (setAdd acc x) = insert x (set acc)"
  by (auto simp: setAdd_def)

lemma set_foldl_setAdd: "set (foldl setAdd acc xs) = set acc \<union> set xs"
  by (induction xs arbitrary: acc) (auto simp: setAdd_def)

lemma distinct_foldl_setAdd: "distinct acc \<Longrightarrow> distinct (foldl setAdd acc xs)"
  by (induction xs arbitrary: acc) (auto simp: setAdd_def)

lemma foldl_setAdd_absorb: "set xs \<subseteq> set acc \<Longrightarrow> foldl setAdd acc xs = acc"
  by (induction xs arbitrary: acc) (auto simp: setAdd_def)

lemma globTasks_append:
  "globTasks (xs @ ys) =
     map (\<lambda>t. (fst t, snd t @ map (drop 1) (filter isNegativePattern ys))) (globTasks xs)
     @ globTasks ys"
  by (induction xs) simp_all

lemma globTasks_negative: "\<forall>p \<in> set ps. isNegativePattern p \<Longrightarrow> globTasks ps = []"
  by (induction ps) simp_all

lemma globby_iff:
  "f \<in> set (globby E cwd patterns) \<longleftrightarrow>
     f \<in> set (walked E cwd) \<and> \<not> ignoredByFiles E cwd f \<and>
     (\<exists>t \<in> set (globTasks patterns).
        gmatch E cwd (fst t) f \<and> (\<forall>ig \<in> set (snd t). \<not> gignored E cwd ig f))"
  by (auto simp: globby_def set_foldl_setAdd runTask_def list_ex_iff)

lemma defaultIgnored_negative: "\<forall>p \<in> set defaultIgnoredPatterns. isNegativePattern p"
  by (simp add: defaultIgnoredPatterns_def isNegativePattern_def startsWith_def)

text \<open>Negative patterns at the end of the list reach every task.\<close>

lemma globby_trailing_negative:
  assumes "f \<in> set (globby E cwd (xs @ ys))" and "\<forall>p \<in> set ys. isNegativePattern p"
    and "ng \<in> set ys"
  shows "\<not> gignored E cwd (drop 1 ng) f"
proof -
  from assms(2) have "globTasks ys = []" by (rule globTasks_negative)
  moreover from assms(2) have "filter isNegativePattern ys = ys" by simp
  ultimately have tasks: "globTasks (xs @ ys) =
      map (\<lambda>t. (fst t, snd t @ map (drop 1) ys)) (globTasks xs)"
    by (simp add: globTasks_append)
  from assms(1) obtain t where "t \<in> set (globTasks (xs @ ys))"
    and ign: "\<forall>ig \<in> set (snd t). \<not> gignored E cwd ig f"
    unfolding globby_iff by blast
  then obtain t' where "t = (fst t', snd t' @ map (drop 1) ys)"
    unfolding tasks by auto
  with ign assms(3) show ?thesis by auto
qed

text \<open>Negative patterns put into the list only remove files.\<close>

lemma globby_insert_negative:
  assumes "f \<in> set (globby E cwd (xs @ extra @ ys))" and "\<forall>p \<in> set extra. isNegativePattern p"
  shows "f \<in> set (globby E cwd (xs @ ys))"
proof -
  from assms(2) have e: "globTasks extra = []" by (rule globTasks_negative)
  from assms(1) obtain t where t: "t \<in> set (globTasks (xs @ extra @ ys))"
    and m: "gmatch E cwd (fst t) f" and ign: "\<forall>ig \<in> set (snd t). \<not> gignored E cwd ig f"
    and w: "f \<in> set (walked E cwd)" "\<not> ignoredByFiles E cwd f"
    unfolding globby_iff by blast
  from t e consider
      (left) t' where "t' \<in> set (globTasks xs)"
        "t = (fst t', snd t' @ map (drop 1) (filter isNegativePattern (extra @ ys)))"
    | (right) "t \<in> set (globTasks ys)"
    by (auto simp: globTasks_append [of xs "extra @ ys"] globTasks_append [of extra ys])
  then have "\<exists>u \<in> set (globTasks (xs @ ys)).
      gmatch E cwd (fst u) f \<and> (\<forall>ig \<in> set (snd u). \<not> gignored E cwd ig f)"
  proof cases
    case left
    let ?u = "(fst t', snd t' @ map (drop 1) (filter isNegativePattern ys))"
    from left(1) have "?u \<in> set (globTasks (xs @ ys))"
      by (auto simp: globTasks_append [of xs ys])
    moreover from left(2) m ign have "gmatch E cwd (fst ?u) f"
      "\<forall>ig \<in> set (snd ?u). \<not> gignored E cwd ig f" by auto
    ultimately show ?thesis by blast
  next
    case right
    with m ign show ?thesis by (auto simp: globTasks_append [of xs ys])
  qed
  with w show ?thesis unfolding globby_iff by blast
qed

lemma globby_walked: "set (globby E cwd patterns) \<subseteq> set (walked E cwd)"
  by (auto simp: globby_iff)

lemma stringValue_None_iff: "stringValue n = None \<longleftrightarrow> nodeType n \<noteq> TString"
  by (cases n) simp_all

lemma collectPatterns_None_iff:
  "fst (collectPatterns rangeOf nodes negs acc) = None \<longleftrightarrow> (\<exists>n \<in> set nodes. stringValue n = None)"
  by (induction nodes arbitrary: negs acc) (auto split: option.splits)

text \<open>What the first loop leaves behind for a list of string nodes.\<close>

lemma collectPatterns_Some:
  "collectPatterns rangeOf nodes negs acc = (Some patternList, negs') \<Longrightarrow>
   \<exists>items. patternList = acc @ items \<and>
           negs' = negs @ map pattern (filter isNegated items) \<and>
           (\<forall>item \<in> set items. isNegated item = isNegativePattern (pattern item)) \<and>
           map stringValue nodes = map (\<lambda>item. Some (pattern item)) items"
proof (induction nodes arbitrary: negs acc)
  case Nil
  then show ?case by simp
next
  case (Cons n nodes)
  from Cons.prems obtain pat where pat: "stringValue n = Some pat"
    by (cases "stringValue n") simp_all
  let ?item = "\<lparr>isNegated = startsWith pat ''!'', pattern = pat, range = rangeOf n\<rparr>"
  from Cons.prems pat have
    "collectPatterns rangeOf nodes (if startsWith pat ''!'' then negs @ [pat] else negs)
       (acc @ [?item]) = (Some patternList, negs')"
    by simp
  from Cons.IH [OF this] obtain items where
    "patternList = (acc @ [?item]) @ items"
    "negs' = (if startsWith pat ''!'' then negs @ [pat] else negs) @ map pattern (filter isNegated items)"
    "\<forall>item \<in> set items. isNegated item = isNegativePattern (pattern item)"
    "map stringValue nodes = map (\<lambda>item. Some (pattern item)) items"
    by blast
  then show ?case
    using pat by (intro exI [of _ "?item # items"]) (simp add: isNegativePattern_def)
qed

lemma relativeFiles_walked: "set (relativeFiles E cwd negs item) \<subseteq> set (walked E cwd)"
  by (simp add: relativeFiles_def globby_walked)

lemma relativeFiles_excludes:
  assumes "f \<in> set (relativeFiles E cwd (negs0 @ extra) item)" and "\<not> isNegated item"
    and "\<forall>p \<in> set extra. isNegativePattern p" and "ng \<in> set extra"
  shows "\<not> gignored E cwd (drop 1 ng) f"
proof -
  from assms(1,2) have "f \<in> set (globby E cwd ((pattern item # negs0) @ (extra @ defaultIgnoredPatterns)))"
    by (simp add: relativeFiles_def itemPatterns_def)
  moreover from assms(3) defaultIgnored_negative
  have "\<forall>p \<in> set (extra @ defaultIgnoredPatterns). isNegativePattern p" by auto
  moreover from assms(4) have "ng \<in> set (extra @ defaultIgnoredPatterns)" by simp
  ultimately show ?thesis by (rule globby_trailing_negative)
qed

lemma relativeFiles_narrows:
  assumes "f \<in> set (relativeFiles E cwd (negs0 @ extra) item)"
    and "\<forall>p \<in> set extra. isNegativePattern p"
  shows "f \<in> set (relativeFiles E cwd negs0 item)"
proof (cases "isNegated item")
  case True
  with assms(1) show ?thesis by (simp add: relativeFiles_def itemPatterns_def)
next
  case False
  with assms(1) have
    "f \<in> set (globby E cwd ((pattern item # negs0) @ extra @ defaultIgnoredPatterns))"
    by (simp add: relativeFiles_def itemPatterns_def)
  from globby_insert_negative [OF this assms(2)] False show ?thesis
    by (simp add: relativeFiles_def itemPatterns_def)
qed

lemma set_completeItem:
  "set (completeItem E cwd negs totalFiles item) =
     set totalFiles \<union> (if isNegated item then {} else set (expandItem E cwd negs item))"
  by (simp add: completeItem_def set_foldl_setAdd)

lemma set_foldl_completeItem:
  "set (foldl (completeItem E cwd negs) totalFiles completed) =
     set totalFiles \<union> (\<Union>item \<in> set completed.
        if isNegated item then {} else set (expandItem E cwd negs item))"
  by (induction completed arbitrary: totalFiles) (auto simp: set_completeItem split: if_splits)

lemma set_totalFilesAfter:
  "set (totalFilesAfter E cwd negs completed) =
     (\<Union>item \<in> set completed. if isNegated item then {} else set (expandItem E cwd negs item))"
  by (simp add: totalFilesAfter_def set_foldl_completeItem)

lemma distinct_foldl_completeItem:
  "distinct totalFiles \<Longrightarrow> distinct (foldl (completeItem E cwd negs) totalFiles completed)"
  by (induction completed arbitrary: totalFiles) (simp_all add: completeItem_def distinct_foldl_setAdd)

lemma distinct_totalFilesAfter: "distinct (totalFilesAfter E cwd negs completed)"
  by (simp add: totalFilesAfter_def distinct_foldl_completeItem)

lemma addFileWhenExists_eq:
  "addFileWhenExists E absPath totalFiles =
     Inr (if pathExists E absPath = Inr True then (setAdd totalFiles absPath, True)
          else (totalFiles, False))"
  using pathExists_fulfilled [of E absPath]
  by (auto simp: addFileWhenExists_def thenP_def)

lemma tryCandidates_first:
  "tryCandidates E candidates totalFiles =
     Inr (case List.find (\<lambda>p. pathExists E p = Inr True) candidates of
            None \<Rightarrow> totalFiles | Some p \<Rightarrow> setAdd totalFiles p)"
  by (induction candidates) (simp_all add: addFileWhenExists_eq thenP_def)

text \<open>\<^verbatim>\<open>resolve(cwd, name)\<close> for a plain file name: a prefix that depends on \<open>cwd\<close> only.\<close>

lemma resolveLoop_acc:
  "resolveLoop ps acc = (fst (resolveLoop ps []) @ acc, snd (resolveLoop ps []))"
proof (induction ps arbitrary: acc)
  case Nil
  show ?case by simp
next
  case (Cons p ps)
  show ?case
    using Cons.IH [of "p @ ''/'' @ acc"] Cons.IH [of "p @ ''/''"] Cons.IH [of acc]
    by simp
qed

lemma resolveLoop_prefix:
  "fst (resolveLoop ps []) = [] \<or> (\<exists>pre. fst (resolveLoop ps []) = pre @ ''/'')"
proof (induction ps)
  case Nil
  show ?case by simp
next
  case (Cons p ps)
  show ?case
  proof (cases "p = [] \<or> isSlash (hd p)")
    case True
    with Cons show ?thesis by auto
  next
    case False
    from resolveLoop_acc [of ps "p @ ''/''"] False show ?thesis
      by simp
  qed
qed

lemma splitSlash_plain: "CHR ''/'' \<notin> set s \<Longrightarrow> splitSlash cur s = [rev cur @ s]"
  by (induction s arbitrary: cur) (auto simp: isSlash_def)

lemma splitSlash_append:
  "splitSlash cur (a @ CHR ''/'' # b) = splitSlash cur a @ splitSlash [] b"
  by (induction a arbitrary: cur) (simp_all add: isSlash_def)

lemma joinSlash_snoc:
  "joinSlash (rs @ [x]) = (if rs = [] then x else joinSlash rs @ ''/'' @ x)"
  by (induction rs rule: joinSlash.induct) simp_all

lemma resolve_plain:
  "\<exists>base. \<forall>file. file \<noteq> [] \<and> CHR ''/'' \<notin> set file \<and> file \<noteq> ''.'' \<and> file \<noteq> ''..''
      \<longrightarrow> resolve pc [cwd, file] = base @ file"
proof -
  define pre0 where "pre0 = fst (resolveLoop [cwd, pc] [])"
  define abs0 where "abs0 = snd (resolveLoop [cwd, pc] [])"
  have pre0: "pre0 = [] \<or> (\<exists>pre. pre0 = pre @ ''/'')"
    unfolding pre0_def by (rule resolveLoop_prefix)
  obtain S where S: "\<And>file. CHR ''/'' \<notin> set file \<Longrightarrow>
      splitSlash [] (pre0 @ file @ ''/'') = S @ [file, []]"
  proof (cases "pre0 = []")
    case True
    have "\<And>file. CHR ''/'' \<notin> set file \<Longrightarrow> splitSlash [] (pre0 @ file @ ''/'') = [] @ [file, []]"
      using True splitSlash_append [of "[]" _ "[]"] by (simp add: splitSlash_plain)
    then show ?thesis by (rule that)
  next
    case False
    with pre0 obtain pre where pre: "pre0 = pre @ ''/''" by blast
    have "\<And>file. CHR ''/'' \<notin> set file \<Longrightarrow>
        splitSlash [] (pre0 @ file @ ''/'') = splitSlash [] pre @ [file, []]"
      using splitSlash_append [of "[]" pre] splitSlash_append [of "[]" _ "[]"]
      by (simp add: pre splitSlash_plain)
    then show ?thesis by (rule that)
  qed
  define R where "R = foldl (normalizeStep (\<not> abs0)) [] S"
  define base where
    "base = (if abs0 then ''/'' else []) @ (if R = [] then [] else joinSlash R @ ''/'')"
  have "\<forall>file. file \<noteq> [] \<and> CHR ''/'' \<notin> set file \<and> file \<noteq> ''.'' \<and> file \<noteq> ''..''
      \<longrightarrow> resolve pc [cwd, file] = base @ file"
  proof (intro allI impI)
    fix fname :: string
    assume plain: "fname \<noteq> [] \<and> CHR ''/'' \<notin> set fname \<and> fname \<noteq> ''.'' \<and> fname \<noteq> ''..''"
    then have hd: "\<not> isSlash (hd fname)" by (cases fname) (auto simp: isSlash_def)
    have "resolveLoop (fname # [cwd, pc]) [] = resolveLoop [cwd, pc] (fname @ ''/'')"
      using plain hd by simp
    also have "\<dots> = (pre0 @ fname @ ''/'', abs0)"
      unfolding pre0_def abs0_def by (rule resolveLoop_acc)
    finally have loop: "resolveLoop (rev [cwd, fname] @ [pc]) [] = (pre0 @ fname @ ''/'', abs0)"
      by simp
    have norm: "normalizeString (pre0 @ fname @ ''/'') (\<not> abs0) = joinSlash (R @ [fname])"
      using plain by (simp add: normalizeString_def S normalizeStep_def R_def)
    have "joinSlash (R @ [fname]) \<noteq> []"
      using plain by (simp add: joinSlash_snoc)
    then show "resolve pc [cwd, fname] = base @ fname"
      unfolding resolve_def loop by (simp add: norm joinSlash_snoc base_def)
  qed
  then show ?thesis by blast
qed

lemma endsWith_append:
  "length suf \<le> length s \<Longrightarrow> endsWith (base @ s) suf = endsWith s suf"
  by (simp add: endsWith_def)

lemma resolve_md:
  assumes "file \<noteq> []" "CHR ''/'' \<notin> set file" "file \<noteq> ''.''" "file \<noteq> ''..''" "3 \<le> length file"
  shows "endsWith (resolve pc [cwd, file]) ''.md'' \<longleftrightarrow> endsWith file ''.md''"
proof -
  from resolve_plain [of pc cwd] assms obtain base where "resolve pc [cwd, file] = base @ file"
    by blast
  with assms(5) show ?thesis by (simp add: endsWith_append)
qed

lemma addDefaultFiles_eq:
  "addDefaultFiles E cwd files totalFiles =
     Inr (foldl setAdd totalFiles
            (concat (map (\<lambda>file.
               if endsWith (resolve (processCwd E) [cwd, file]) ''.md''
               then (case firstExisting E (candidatesFor E cwd file) of
                       None \<Rightarrow> [] | Some p \<Rightarrow> [p])
               else if pathExists E (resolve (processCwd E) [cwd, file]) = Inr True
                    then [resolve (processCwd E) [cwd, file]] else []) files)))"
  by (induction files arbitrary: totalFiles)
     (simp_all add: tryCandidates_first addFileWhenExists_eq thenP_def firstExisting_def
        split: option.splits)

lemma stringValue_property: "nodeType n = TProperty \<Longrightarrow> stringValue n = None"
  by (cases n) simp_all

text \<open>
  \<^verbatim>\<open>findNodeAtLocation\<close> gives the value of \<^verbatim>\<open>main\<close>, which in a parse tree is never a
  property; and a property has no \<^verbatim>\<open>value\<close>. So this step adds no file.
\<close>

lemma addMainEntry_outcome:
  "(\<forall>totalFiles. addMainEntry E cwd root totalFiles = Inr totalFiles) \<or>
   (\<forall>totalFiles. addMainEntry E cwd root totalFiles = Inl TypeError)"
  by (auto simp: addMainEntry_def stringValue_property split: option.splits list.splits)

lemma allFiles_off:
  "allFiles E False root cwd negs completed = Inr (totalFilesAfter E cwd negs completed)"
  by (simp add: allFiles_def)

lemma allFiles_on:
  "allFiles E True root cwd negs completed = Inr fs \<Longrightarrow>
   addDefaultFiles E cwd defaultIncludedFiles (totalFilesAfter E cwd negs completed) = Inr fs"
  using addMainEntry_outcome [of E cwd root]
  by (auto simp: allFiles_def addDefaultFiles_eq thenP_def)

lemma allFiles_sets:
  "\<exists>D. \<forall>negs completed.
     map_sum id set (allFiles E includeDefaultPackedFiles root cwd negs completed)
       = D (set (totalFilesAfter E cwd negs completed))"
proof (cases includeDefaultPackedFiles)
  case False
  then show ?thesis
    by (intro exI [of _ "\<lambda>S. Inr S"]) (simp add: allFiles_def)
next
  case True
  from addMainEntry_outcome [of E cwd root] show ?thesis
  proof
    assume ok: "\<forall>totalFiles. addMainEntry E cwd root totalFiles = Inr totalFiles"
    obtain hits where "\<And>totalFiles. addDefaultFiles E cwd defaultIncludedFiles totalFiles
        = Inr (foldl setAdd totalFiles hits)"
      using addDefaultFiles_eq by blast
    with ok True show ?thesis
      by (intro exI [of _ "\<lambda>S. Inr (S \<union> set hits)"])
         (simp add: allFiles_def thenP_def set_foldl_setAdd)
  next
    assume "\<forall>totalFiles. addMainEntry E cwd root totalFiles = Inl TypeError"
    with True show ?thesis
      by (intro exI [of _ "\<lambda>S. Inl TypeError"])
         (simp add: allFiles_def thenP_def addDefaultFiles_eq)
  qed
qed

lemma distinct_count_list: "distinct xs \<Longrightarrow> x \<in> set xs \<Longrightarrow> count_list xs x = 1"
  by (induction xs) auto

lemma allFiles_Inr:
  "\<exists>hits. \<forall>root negs completed fs.
      allFiles E includeDefaultPackedFiles root cwd negs completed = Inr fs \<longrightarrow>
      fs = foldl setAdd (totalFilesAfter E cwd negs completed) hits"
proof (cases includeDefaultPackedFiles)
  case False
  then show ?thesis by (intro exI [of _ "[]"]) (simp add: allFiles_def)
next
  case True
  obtain hits where hits: "\<And>totalFiles. addDefaultFiles E cwd defaultIncludedFiles totalFiles
      = Inr (foldl setAdd totalFiles hits)"
    using addDefaultFiles_eq by blast
  have "\<forall>root negs completed fs.
      allFiles E True root cwd negs completed = Inr fs \<longrightarrow>
      fs = foldl setAdd (totalFilesAfter E cwd negs completed) hits"
  proof (intro allI impI)
    fix root negs completed fs
    assume a: "allFiles E True root cwd negs completed = Inr fs"
    from addMainEntry_outcome [of E cwd root] a
    show "fs = foldl setAdd (totalFilesAfter E cwd negs completed) hits"
      by (auto simp: allFiles_def thenP_def hits)
  qed
  with True show ?thesis by auto
qed

text \<open>
  Claim C7. When the \<^verbatim>\<open>files\<close> array has an element that is not a string,
  \<^verbatim>\<open>getCodeLenses\<close> returns nothing and sets no entry in the map of lenses: no lens is
  produced, not even for the patterns before the element.
\<close>

theorem non_string_pattern_aborts:
  assumes "findNodeAtLocation root [''files''] = Some (path, filesPropertyNode)"
    and "c \<in> set (children filesPropertyNode)" and "nodeType c \<noteq> TString"
  shows "fst (getCodeLenses E includeDefaultPackedFiles rangeOf completion (Some root) fsPath this)
           = None \<and>
         codeLensDataMap
           (snd (getCodeLenses E includeDefaultPackedFiles rangeOf completion (Some root) fsPath this))
           = codeLensDataMap this"
proof -
  from assms(2) have nonempty: "children filesPropertyNode \<noteq> []" by auto
  from assms(2,3) have "\<exists>n \<in> set (children filesPropertyNode). stringValue n = None"
    using stringValue_None_iff by blast
  then have "fst (collectPatterns rangeOf (children filesPropertyNode) (negativePatterns this) [])
      = None"
    by (simp add: collectPatterns_None_iff)
  then obtain negs where
    "collectPatterns rangeOf (children filesPropertyNode) (negativePatterns this) [] = (None, negs)"
    by (cases "collectPatterns rangeOf (children filesPropertyNode) (negativePatterns this) []") simp
  with assms(1) nonempty show ?thesis
    by (simp add: getCodeLenses_def)
qed

theorem non_string_pattern_aborts_witness:
  "findNodeAtLocation malformedManifest [''files'']
     = Some ([0, 1], NArray 10 11 [NString 11 6 ''dist'', NNumber 19 1 ''1'']) \<and>
   getCodeLenses (pkgFs [''package.json'']) True stringNodeRange id
     (Some malformedManifest) ''/pkg/package.json'' freshProvider = (None, freshProvider)"
proof -
  have f: "findNodeAtLocation malformedManifest [''files'']
     = Some ([0, 1], NArray 10 11 [NString 11 6 ''dist'', NNumber 19 1 ''1''])"
    by (simp add: malformedManifest_def)
  have c: "NNumber 19 1 ''1'' \<in> set (children (NArray 10 11 [NString 11 6 ''dist'', NNumber 19 1 ''1'']))"
    by simp
  have t: "nodeType (NNumber 19 1 ''1'') \<noteq> TString" by simp
  have n: "negativePatterns (snd (getCodeLenses (pkgFs [''package.json'']) True stringNodeRange id
     (Some malformedManifest) ''/pkg/package.json'' freshProvider)) = []"
    by (simp add: getCodeLenses_def malformedManifest_def freshProvider_def startsWith_def)
  from non_string_pattern_aborts [OF f c t, of "pkgFs [''package.json'']" True stringNodeRange id
         "''/pkg/package.json''" freshProvider] n f
  show ?thesis
    by (cases "getCodeLenses (pkgFs [''package.json'']) True stringNodeRange id
     (Some malformedManifest) ''/pkg/package.json'' freshProvider") (simp add: freshProvider_def)
qed

lemma addDefaultFiles_default:
  "addDefaultFiles E cwd defaultIncludedFiles totalFiles =
     Inr (foldl setAdd totalFiles
            ((if pathExists E (resolve (processCwd E) [cwd, ''package.json'']) = Inr True
              then [resolve (processCwd E) [cwd, ''package.json'']] else []) @
             (case firstExisting E (candidatesFor E cwd ''README.md'') of
                None \<Rightarrow> [] | Some p \<Rightarrow> [p]) @
             (case firstExisting E (candidatesFor E cwd ''LICENSE.md'') of
                None \<Rightarrow> [] | Some p \<Rightarrow> [p]) @
             (case firstExisting E (candidatesFor E cwd ''LICENCE.md'') of
                None \<Rightarrow> [] | Some p \<Rightarrow> [p])))"
proof -
  have "\<not> endsWith (resolve (processCwd E) [cwd, ''package.json'']) ''.md''"
    by (subst resolve_md) (simp_all add: endsWith_def)
  moreover have "endsWith (resolve (processCwd E) [cwd, ''README.md'']) ''.md''"
    by (subst resolve_md) (simp_all add: endsWith_def)
  moreover have "endsWith (resolve (processCwd E) [cwd, ''LICENSE.md'']) ''.md''"
    by (subst resolve_md) (simp_all add: endsWith_def)
  moreover have "endsWith (resolve (processCwd E) [cwd, ''LICENCE.md'']) ''.md''"
    by (subst resolve_md) (simp_all add: endsWith_def)
  ultimately show ?thesis
    by (simp add: addDefaultFiles_eq defaultIncludedFiles_def)
qed

lemma firstExisting_Some:
  "firstExisting E candidates = Some p \<Longrightarrow> p \<in> set candidates \<and> pathExists E p = Inr True"
  by (auto simp: firstExisting_def find_Some_iff)

lemma lower_README: "toLowerCase ''README.md'' = ''readme.md''"
  by code_simp

lemma candidatesFor_README:
  "candidatesFor E cwd ''README.md'' =
     [resolve (processCwd E) [cwd, ''README.md''], resolve (processCwd E) [cwd, ''README''],
      resolve (processCwd E) [cwd, ''readme.md''], resolve (processCwd E) [cwd, ''readme'']]"
  by (simp add: candidatesFor_def sliceEnd_def lower_README)

lemma set_allFiles_on:
  assumes "allFiles E True root cwd negs completed = Inr fs"
  shows "set fs =
     set (totalFilesAfter E cwd negs completed) \<union>
     (if pathExists E (resolve (processCwd E) [cwd, ''package.json'']) = Inr True
      then {resolve (processCwd E) [cwd, ''package.json'']} else {}) \<union>
     set_option (firstExisting E (candidatesFor E cwd ''README.md'')) \<union>
     set_option (firstExisting E (candidatesFor E cwd ''LICENSE.md'')) \<union>
     set_option (firstExisting E (candidatesFor E cwd ''LICENCE.md''))"
proof -
  define hits where "hits =
            (if pathExists E (resolve (processCwd E) [cwd, ''package.json'']) = Inr True
              then [resolve (processCwd E) [cwd, ''package.json'']] else []) @
             (case firstExisting E (candidatesFor E cwd ''README.md'') of
                None \<Rightarrow> [] | Some p \<Rightarrow> [p]) @
             (case firstExisting E (candidatesFor E cwd ''LICENSE.md'') of
                None \<Rightarrow> [] | Some p \<Rightarrow> [p]) @
             (case firstExisting E (candidatesFor E cwd ''LICENCE.md'') of
                None \<Rightarrow> [] | Some p \<Rightarrow> [p])"
  from allFiles_on [OF assms]
  have "fs = foldl setAdd (totalFilesAfter E cwd negs completed) hits"
    unfolding hits_def by (simp add: addDefaultFiles_default)
  then have "set fs = set (totalFilesAfter E cwd negs completed) \<union> set hits"
    by (simp only: set_foldl_setAdd)
  also have "set hits =
     (if pathExists E (resolve (processCwd E) [cwd, ''package.json'']) = Inr True
      then {resolve (processCwd E) [cwd, ''package.json'']} else {}) \<union>
     set_option (firstExisting E (candidatesFor E cwd ''README.md'')) \<union>
     set_option (firstExisting E (candidatesFor E cwd ''LICENSE.md'')) \<union>
     set_option (firstExisting E (candidatesFor E cwd ''LICENCE.md''))"
    unfolding hits_def by (auto split: option.splits)
  finally show ?thesis by (simp add: Un_assoc)
qed

lemma readme_probe_core:
  "candidatesFor E cwd ''README.md'' =
     [resolve (processCwd E) [cwd, ''README.md''], resolve (processCwd E) [cwd, ''README''],
      resolve (processCwd E) [cwd, ''readme.md''], resolve (processCwd E) [cwd, ''readme'']] \<and>
   tryCandidates E candidates totalFiles =
     Inr (case firstExisting E candidates of None \<Rightarrow> totalFiles | Some p \<Rightarrow> setAdd totalFiles p) \<and>
   (\<forall>fs. allFiles E True root cwd negs completed = Inr fs \<longrightarrow>
      distinct fs \<and>
      (\<forall>p. firstExisting E (candidatesFor E cwd ''README.md'') = Some p \<longrightarrow> count_list fs p = 1))"
proof (intro conjI allI impI)
  show "candidatesFor E cwd ''README.md'' =
     [resolve (processCwd E) [cwd, ''README.md''], resolve (processCwd E) [cwd, ''README''],
      resolve (processCwd E) [cwd, ''readme.md''], resolve (processCwd E) [cwd, ''readme'']]"
    by (rule candidatesFor_README)
  show "tryCandidates E candidates totalFiles =
     Inr (case firstExisting E candidates of None \<Rightarrow> totalFiles | Some p \<Rightarrow> setAdd totalFiles p)"
    by (simp add: tryCandidates_first firstExisting_def)
next
  fix fs
  assume run: "allFiles E True root cwd negs completed = Inr fs"
  from allFiles_on [OF run]
  have fs: "fs = foldl setAdd (totalFilesAfter E cwd negs completed)
            ((if pathExists E (resolve (processCwd E) [cwd, ''package.json'']) = Inr True
              then [resolve (processCwd E) [cwd, ''package.json'']] else []) @
             (case firstExisting E (candidatesFor E cwd ''README.md'') of
                None \<Rightarrow> [] | Some p \<Rightarrow> [p]) @
             (case firstExisting E (candidatesFor E cwd ''LICENSE.md'') of
                None \<Rightarrow> [] | Some p \<Rightarrow> [p]) @
             (case firstExisting E (candidatesFor E cwd ''LICENCE.md'') of
                None \<Rightarrow> [] | Some p \<Rightarrow> [p]))"
    by (simp add: addDefaultFiles_default)
  show d: "distinct fs"
    by (subst fs) (intro distinct_foldl_setAdd distinct_totalFilesAfter)
  fix p
  assume "firstExisting E (candidatesFor E cwd ''README.md'') = Some p"
  then have "p \<in> set fs"
    by (subst fs) (auto simp: set_foldl_setAdd set_setAdd)
  with d show "count_list fs p = 1" by (simp add: distinct_count_list)
qed

lemma lower_LICENSE: "toLowerCase ''LICENSE.md'' = ''license.md''"
  by code_simp

lemma lower_LICENCE: "toLowerCase ''LICENCE.md'' = ''licence.md''"
  by code_simp

lemma mixed_case_not_default:
  "resolve (processCwd E) [cwd, ''Readme.md''] \<notin> set (candidatesFor E cwd ''README.md'')"
  "allFiles E True root cwd negs completed = Inr fs \<Longrightarrow>
   resolve (processCwd E) [cwd, ''Readme.md''] \<in> set fs \<Longrightarrow>
   resolve (processCwd E) [cwd, ''Readme.md''] \<in> set (totalFilesAfter E cwd negs completed)"
proof -
  obtain base where base: "\<And>fname. fname \<noteq> [] \<Longrightarrow> CHR ''/'' \<notin> set fname \<Longrightarrow>
      fname \<noteq> ''.'' \<Longrightarrow> fname \<noteq> ''..'' \<Longrightarrow> resolve (processCwd E) [cwd, fname] = base @ fname"
    using resolve_plain [of "processCwd E" cwd] by blast
  have r: "resolve (processCwd E) [cwd, ''Readme.md''] = base @ ''Readme.md''"
    by (rule base) simp_all
  have c1: "candidatesFor E cwd ''README.md'' =
      [base @ ''README.md'', base @ ''README'', base @ ''readme.md'', base @ ''readme'']"
    by (simp add: candidatesFor_def sliceEnd_def lower_README base)
  have c2: "candidatesFor E cwd ''LICENSE.md'' =
      [base @ ''LICENSE.md'', base @ ''LICENSE'', base @ ''license.md'', base @ ''license'']"
    by (simp add: candidatesFor_def sliceEnd_def lower_LICENSE base)
  have c3: "candidatesFor E cwd ''LICENCE.md'' =
      [base @ ''LICENCE.md'', base @ ''LICENCE'', base @ ''licence.md'', base @ ''licence'']"
    by (simp add: candidatesFor_def sliceEnd_def lower_LICENCE base)
  have p: "resolve (processCwd E) [cwd, ''package.json''] = base @ ''package.json''"
    by (rule base) simp_all
  show "resolve (processCwd E) [cwd, ''Readme.md''] \<notin> set (candidatesFor E cwd ''README.md'')"
    unfolding r c1 by simp
  assume run: "allFiles E True root cwd negs completed = Inr fs"
    and mem: "resolve (processCwd E) [cwd, ''Readme.md''] \<in> set fs"
  have n1: "firstExisting E (candidatesFor E cwd ''README.md'') \<noteq> Some (base @ ''Readme.md'')"
    using firstExisting_Some [of E "candidatesFor E cwd ''README.md''" "base @ ''Readme.md''"]
    unfolding c1 by auto
  have n2: "firstExisting E (candidatesFor E cwd ''LICENSE.md'') \<noteq> Some (base @ ''Readme.md'')"
    using firstExisting_Some [of E "candidatesFor E cwd ''LICENSE.md''" "base @ ''Readme.md''"]
    unfolding c2 by auto
  have n3: "firstExisting E (candidatesFor E cwd ''LICENCE.md'') \<noteq> Some (base @ ''Readme.md'')"
    using firstExisting_Some [of E "candidatesFor E cwd ''LICENCE.md''" "base @ ''Readme.md''"]
    unfolding c3 by auto
  from mem show "resolve (processCwd E) [cwd, ''Readme.md'']
      \<in> set (totalFilesAfter E cwd negs completed)"
    unfolding set_allFiles_on [OF run] r p using n1 n2 n3
    by (auto split: if_splits)
qed

text \<open>
  Claim C2, as amended. With \<^verbatim>\<open>includeDefaultPackedFiles\<close> on, the candidates tried for the
  README are, in this order, \<^verbatim>\<open>README.md\<close>, \<^verbatim>\<open>README\<close>, \<^verbatim>\<open>readme.md\<close> and \<^verbatim>\<open>readme\<close> in
  the package directory; a probe of a group adds the first candidate that exists and no
  other; the all-files list holds no path twice, and the first existing README candidate
  is in it exactly once. \<^verbatim>\<open>Readme.md\<close> is not a candidate, and it is in the all-files set
  only when it is among the files the patterns gave.
\<close>

theorem readme_probe_first_hit:
  "candidatesFor E cwd ''README.md'' =
     [resolve (processCwd E) [cwd, ''README.md''], resolve (processCwd E) [cwd, ''README''],
      resolve (processCwd E) [cwd, ''readme.md''], resolve (processCwd E) [cwd, ''readme'']] \<and>
   tryCandidates E candidates totalFiles =
     Inr (case firstExisting E candidates of None \<Rightarrow> totalFiles | Some p \<Rightarrow> setAdd totalFiles p) \<and>
   (\<forall>fs. allFiles E True root cwd negs completed = Inr fs \<longrightarrow>
      distinct fs \<and>
      (\<forall>p. firstExisting E (candidatesFor E cwd ''README.md'') = Some p \<longrightarrow> count_list fs p = 1)) \<and>
   resolve (processCwd E) [cwd, ''Readme.md''] \<notin> set (candidatesFor E cwd ''README.md'') \<and>
   (\<forall>fs. allFiles E True root cwd negs completed = Inr fs \<and>
         resolve (processCwd E) [cwd, ''Readme.md''] \<in> set fs \<longrightarrow>
      resolve (processCwd E) [cwd, ''Readme.md''] \<in> set (totalFilesAfter E cwd negs completed))"
proof -
  note core = readme_probe_core [of E cwd candidates totalFiles root negs completed]
  have a: "resolve (processCwd E) [cwd, ''Readme.md''] \<notin> set (candidatesFor E cwd ''README.md'')"
    by (rule mixed_case_not_default(1))
  have b: "\<forall>fs. allFiles E True root cwd negs completed = Inr fs \<and>
         resolve (processCwd E) [cwd, ''Readme.md''] \<in> set fs \<longrightarrow>
      resolve (processCwd E) [cwd, ''Readme.md''] \<in> set (totalFilesAfter E cwd negs completed)"
    using mixed_case_not_default(2) by blast
  show ?thesis
    by (intro conjI core [THEN conjunct1] core [THEN conjunct2, THEN conjunct1]
          core [THEN conjunct2, THEN conjunct2] a b)
qed

lemma expandItem_files:
  "x \<in> set (expandItem E cwd negs item) \<longleftrightarrow>
     (\<exists>f \<in> set (relativeFiles E cwd negs item). x = resolve (processCwd E) [cwd, f])"
  by (auto simp: expandItem_def)

lemma totalFilesAfter_excludes:
  assumes "set completed \<subseteq> set items"
    and "\<forall>item \<in> set items. isNegated item = isNegativePattern (pattern item)"
    and "n \<in> set items" and "isNegated n"
    and "x \<in> set (totalFilesAfter E cwd (negs0 @ map pattern (filter isNegated items)) completed)"
  shows "\<exists>f \<in> set (walked E cwd).
           x = resolve (processCwd E) [cwd, f] \<and> \<not> gignored E cwd (drop 1 (pattern n)) f"
proof -
  let ?negs = "negs0 @ map pattern (filter isNegated items)"
  from assms(5) obtain item where item: "item \<in> set completed" "\<not> isNegated item"
    and x: "x \<in> set (expandItem E cwd ?negs item)"
    by (auto simp: set_totalFilesAfter split: if_splits)
  from x obtain f where f: "f \<in> set (relativeFiles E cwd ?negs item)"
    and xf: "x = resolve (processCwd E) [cwd, f]"
    unfolding expandItem_files by blast
  from assms(2) have neg: "\<forall>p \<in> set (map pattern (filter isNegated items)). isNegativePattern p"
    by auto
  from assms(3,4) have mem: "pattern n \<in> set (map pattern (filter isNegated items))" by auto
  from relativeFiles_excludes [OF f item(2) neg mem] relativeFiles_walked f xf
  show ?thesis by blast
qed

lemma negation_excludes_items:
  assumes "collectPatterns rangeOf nodes negs0 [] = (Some patternList, negs)"
    and "n \<in> set patternList" and "isNegated n"
  shows "(\<forall>item \<in> set patternList. \<not> isNegated item \<longrightarrow>
            (\<forall>f \<in> set (relativeFiles E cwd negs item).
               \<not> gignored E cwd (drop 1 (pattern n)) f)) \<and>
         (\<forall>fs. set completed \<subseteq> set patternList \<and>
               allFiles E False root cwd negs completed = Inr fs \<longrightarrow>
            (\<forall>x \<in> set fs. \<exists>f \<in> set (walked E cwd).
               x = resolve (processCwd E) [cwd, f] \<and> \<not> gignored E cwd (drop 1 (pattern n)) f)) \<and>
         (\<forall>fs. set completed \<subseteq> set patternList \<and>
               allFiles E True root cwd negs completed = Inr fs \<longrightarrow>
            (\<forall>x \<in> set fs.
               (\<exists>f \<in> set (walked E cwd).
                  x = resolve (processCwd E) [cwd, f] \<and> \<not> gignored E cwd (drop 1 (pattern n)) f) \<or>
               (x \<in> set (resolve (processCwd E) [cwd, ''package.json'']
                         # concat (map (candidatesFor E cwd)
                                     [''README.md'', ''LICENSE.md'', ''LICENCE.md''])) \<and>
                pathExists E x = Inr True)))"
proof -
  from collectPatterns_Some [OF assms(1)] have
    negs: "negs = negs0 @ map pattern (filter isNegated patternList)"
    and flags: "\<forall>item \<in> set patternList. isNegated item = isNegativePattern (pattern item)"
    by auto
  from flags have neg: "\<forall>p \<in> set (map pattern (filter isNegated patternList)). isNegativePattern p"
    by auto
  from assms(2,3) have mem: "pattern n \<in> set (map pattern (filter isNegated patternList))"
    by auto
  have A: "\<forall>item \<in> set patternList. \<not> isNegated item \<longrightarrow>
            (\<forall>f \<in> set (relativeFiles E cwd negs item). \<not> gignored E cwd (drop 1 (pattern n)) f)"
    unfolding negs using relativeFiles_excludes [OF _ _ neg mem] by blast
  have total: "\<exists>f \<in> set (walked E cwd).
           x = resolve (processCwd E) [cwd, f] \<and> \<not> gignored E cwd (drop 1 (pattern n)) f"
    if "set completed \<subseteq> set patternList" "x \<in> set (totalFilesAfter E cwd negs completed)" for x
    using totalFilesAfter_excludes [OF that(1) flags assms(2,3)] that(2) unfolding negs by blast
  have B: "\<forall>fs. set completed \<subseteq> set patternList \<and>
               allFiles E False root cwd negs completed = Inr fs \<longrightarrow>
            (\<forall>x \<in> set fs. \<exists>f \<in> set (walked E cwd).
               x = resolve (processCwd E) [cwd, f] \<and> \<not> gignored E cwd (drop 1 (pattern n)) f)"
    using total by (auto simp: allFiles_off)
  have C: "\<forall>fs. set completed \<subseteq> set patternList \<and>
               allFiles E True root cwd negs completed = Inr fs \<longrightarrow>
            (\<forall>x \<in> set fs.
               (\<exists>f \<in> set (walked E cwd).
                  x = resolve (processCwd E) [cwd, f] \<and> \<not> gignored E cwd (drop 1 (pattern n)) f) \<or>
               (x \<in> set (resolve (processCwd E) [cwd, ''package.json'']
                         # concat (map (candidatesFor E cwd)
                                     [''README.md'', ''LICENSE.md'', ''LICENCE.md''])) \<and>
                pathExists E x = Inr True))"
  proof (intro allI impI ballI)
    fix fs x
    assume a: "set completed \<subseteq> set patternList \<and>
               allFiles E True root cwd negs completed = Inr fs" and x: "x \<in> set fs"
    from a have run: "allFiles E True root cwd negs completed = Inr fs" by simp
    from x consider
        "x \<in> set (totalFilesAfter E cwd negs completed)"
      | "x = resolve (processCwd E) [cwd, ''package.json'']"
        "pathExists E (resolve (processCwd E) [cwd, ''package.json'']) = Inr True"
      | "firstExisting E (candidatesFor E cwd ''README.md'') = Some x"
      | "firstExisting E (candidatesFor E cwd ''LICENSE.md'') = Some x"
      | "firstExisting E (candidatesFor E cwd ''LICENCE.md'') = Some x"
      unfolding set_allFiles_on [OF run] by (auto split: if_splits)
    then show "(\<exists>f \<in> set (walked E cwd).
                  x = resolve (processCwd E) [cwd, f] \<and> \<not> gignored E cwd (drop 1 (pattern n)) f) \<or>
               (x \<in> set (resolve (processCwd E) [cwd, ''package.json'']
                         # concat (map (candidatesFor E cwd)
                                     [''README.md'', ''LICENSE.md'', ''LICENCE.md''])) \<and>
                pathExists E x = Inr True)"
    proof cases
      case 1
      with a total show ?thesis by blast
    next
      case 2
      then show ?thesis by simp
    next
      case 3
      from firstExisting_Some [OF this] show ?thesis by simp
    next
      case 4
      from firstExisting_Some [OF this] show ?thesis by simp
    next
      case 5
      from firstExisting_Some [OF this] show ?thesis by simp
    qed
  qed
  from A B C show ?thesis by blast
qed

lemma getCodeLenses_Some:
  assumes "getCodeLenses E incl rangeOf completion (Some root) fsPath this = (Some lenses, this')"
    and "findNodeAtLocation root [''files''] = Some (p, fnode)"
  obtains patternList negs where
    "collectPatterns rangeOf (children fnode) (negativePatterns this) [] = (Some patternList, negs)"
    "codeLensDataMap this' =
       codeLensDataMap this @
       map (\<lambda>item. (range item,
                     \<lparr>lensType = (if isNegated item then ExcludeLens else IncludeLens),
                      position = fst (range item),
                      referenceFiles = Inr (expandItem E (dirname fsPath) negs item)\<rparr>)) patternList @
       [((offset fnode, offset fnode + int (length filesLiteral)),
         \<lparr>lensType = AllLens, position = offset fnode,
          referenceFiles = allFiles E incl root (dirname fsPath) negs (completion patternList)\<rparr>)]"
proof -
  note f = assms(2)
  from assms f have ne: "children fnode \<noteq> []"
    by (auto simp: getCodeLenses_def split: if_splits)
  obtain r negs where c: "collectPatterns rangeOf (children fnode) (negativePatterns this) [] = (r, negs)"
    by (cases "collectPatterns rangeOf (children fnode) (negativePatterns this) []")
  from assms f ne c obtain patternList where r: "r = Some patternList"
    by (cases r) (auto simp: getCodeLenses_def)
  from assms f ne c r have "codeLensDataMap this' =
       codeLensDataMap this @
       map (\<lambda>item. (range item,
                     \<lparr>lensType = (if isNegated item then ExcludeLens else IncludeLens),
                      position = fst (range item),
                      referenceFiles = Inr (expandItem E (dirname fsPath) negs item)\<rparr>)) patternList @
       [((offset fnode, offset fnode + int (length filesLiteral)),
         \<lparr>lensType = AllLens, position = offset fnode,
          referenceFiles = allFiles E incl root (dirname fsPath) negs (completion patternList)\<rparr>)]"
    by (auto simp: getCodeLenses_def Let_def)
  with c r show ?thesis using that by simp
qed

lemma collectPatterns_item:
  assumes "collectPatterns rangeOf nodes negs0 [] = (Some patternList, negs)"
    and "ng \<in> set nodes" and "stringValue ng = Some (CHR ''!'' # pat)"
  shows "\<exists>n \<in> set patternList. isNegated n \<and> pattern n = CHR ''!'' # pat"
proof -
  from collectPatterns_Some [OF assms(1)] have
    vals: "map stringValue nodes = map (\<lambda>item. Some (pattern item)) patternList"
    and flags: "\<forall>item \<in> set patternList. isNegated item = isNegativePattern (pattern item)"
    by auto
  from assms(2,3) have "Some (CHR ''!'' # pat) \<in> set (map stringValue nodes)" by force
  with vals obtain n where "n \<in> set patternList" "pattern n = CHR ''!'' # pat" by auto
  with flags show ?thesis by (auto simp: isNegativePattern_def startsWith_def)
qed


lemma expandItem_cong:
  "pattern item = pattern item' \<Longrightarrow> isNegated item = isNegated item' \<Longrightarrow>
   expandItem E cwd negs item = expandItem E cwd negs item'"
  by (simp add: expandItem_def relativeFiles_def itemPatterns_def)

lemma completeItem_negated:
  "isNegated item \<Longrightarrow> completeItem E cwd negs totalFiles item = totalFiles"
  by (simp add: completeItem_def)

text \<open>
  Claim C6. The expansion of a negated item, when it completes, leaves the result set
  as it is. And take two manifests read by \<^verbatim>\<open>getCodeLenses\<close> from the same provider, the
  \<^verbatim>\<open>files\<close> of the second being those of the first without the negated patterns; let
  every expansion started complete, the negated ones too, in any order. Then the set of
  the lens of type \<^verbatim>\<open>all\<close> of the first is a subset of that of the second.
\<close>

theorem negation_only_narrows:
  assumes "getCodeLenses E incl rangeOf completion (Some root) fsPath this = (Some lenses, this1)"
    and "getCodeLenses E incl rangeOf' completion' (Some root') fsPath this = (Some lenses', this2)"
    and "findNodeAtLocation root [''files''] = Some (p, fnode)"
    and "findNodeAtLocation root' [''files''] = Some (p', fnode')"
    and "map stringValue (children fnode') =
           filter (\<lambda>v. case v of None \<Rightarrow> True | Some s \<Rightarrow> \<not> startsWith s ''!'')
             (map stringValue (children fnode))"
    and "\<forall>xs. mset (completion xs) = mset xs" and "\<forall>xs. mset (completion' xs) = mset xs"
    and "referenceFiles (snd (last (codeLensDataMap this1))) = Inr fs"
    and "referenceFiles (snd (last (codeLensDataMap this2))) = Inr fs'"
  shows "set fs \<subseteq> set fs' \<and>
         (\<forall>item negs totalFiles. isNegated item \<longrightarrow>
            completeItem E (dirname fsPath) negs totalFiles item = totalFiles)"
proof -
  let ?cwd = "dirname fsPath"
  obtain pl negs where
    collect: "collectPatterns rangeOf (children fnode) (negativePatterns this) [] = (Some pl, negs)"
    and entries: "codeLensDataMap this1 =
       codeLensDataMap this @
       map (\<lambda>item. (range item,
                     \<lparr>lensType = (if isNegated item then ExcludeLens else IncludeLens),
                      position = fst (range item),
                      referenceFiles = Inr (expandItem E ?cwd negs item)\<rparr>)) pl @
       [((offset fnode, offset fnode + int (length filesLiteral)),
         \<lparr>lensType = AllLens, position = offset fnode,
          referenceFiles = allFiles E incl root ?cwd negs (completion pl)\<rparr>)]"
    by (rule getCodeLenses_Some [OF assms(1,3)])
  obtain pl' negs' where
    collect': "collectPatterns rangeOf' (children fnode') (negativePatterns this) [] = (Some pl', negs')"
    and entries': "codeLensDataMap this2 =
       codeLensDataMap this @
       map (\<lambda>item. (range item,
                     \<lparr>lensType = (if isNegated item then ExcludeLens else IncludeLens),
                      position = fst (range item),
                      referenceFiles = Inr (expandItem E ?cwd negs' item)\<rparr>)) pl' @
       [((offset fnode', offset fnode' + int (length filesLiteral)),
         \<lparr>lensType = AllLens, position = offset fnode',
          referenceFiles = allFiles E incl root' ?cwd negs' (completion' pl')\<rparr>)]"
    by (rule getCodeLenses_Some [OF assms(2,4)])
  from entries assms(8) have run: "allFiles E incl root ?cwd negs (completion pl) = Inr fs"
    by simp
  from entries' assms(9) have run': "allFiles E incl root' ?cwd negs' (completion' pl') = Inr fs'"
    by simp
  from collectPatterns_Some [OF collect] have
    negs: "negs = negativePatterns this @ map pattern (filter isNegated pl)"
    and flags: "\<forall>item \<in> set pl. isNegated item = isNegativePattern (pattern item)"
    and vals: "map stringValue (children fnode) = map (\<lambda>item. Some (pattern item)) pl"
    by auto
  from collectPatterns_Some [OF collect'] have
    negs': "negs' = negativePatterns this @ map pattern (filter isNegated pl')"
    and flags': "\<forall>item \<in> set pl'. isNegated item = isNegativePattern (pattern item)"
    and vals': "map stringValue (children fnode') = map (\<lambda>item. Some (pattern item)) pl'"
    by auto
  from assms(5) vals vals' have pats:
    "map (\<lambda>item. Some (pattern item)) pl' =
       filter (\<lambda>v. case v of None \<Rightarrow> True | Some s \<Rightarrow> \<not> startsWith s ''!'')
         (map (\<lambda>item. Some (pattern item)) pl)"
    by simp
  have pos': "\<forall>item \<in> set pl'. \<not> isNegated item"
  proof
    fix item assume i: "item \<in> set pl'"
    then have "Some (pattern item) \<in> set (map (\<lambda>item. Some (pattern item)) pl')" by force
    then have "\<not> startsWith (pattern item) ''!''" unfolding pats by auto
    with flags' i show "\<not> isNegated item" by (simp add: isNegativePattern_def)
  qed
  then have "filter isNegated pl' = []" by (simp add: filter_empty_conv)
  with negs' have negs0: "negs' = negativePatterns this" by simp
  from flags have neg: "\<forall>q \<in> set (map pattern (filter isNegated pl)). isNegativePattern q"
    by auto
  from assms(6) have c: "set (completion pl) = set pl" by (metis mset_eq_setD)
  from assms(7) have c': "set (completion' pl') = set pl'" by (metis mset_eq_setD)
  have "set (totalFilesAfter E ?cwd negs (completion pl))
          \<subseteq> set (totalFilesAfter E ?cwd negs' (completion' pl'))"
  proof
    fix x assume "x \<in> set (totalFilesAfter E ?cwd negs (completion pl))"
    then obtain item where item: "item \<in> set pl" "\<not> isNegated item"
      and x: "x \<in> set (expandItem E ?cwd negs item)"
      unfolding set_totalFilesAfter c by (auto split: if_splits)
    from x have x0: "x \<in> set (expandItem E ?cwd (negativePatterns this) item)"
      unfolding negs using relativeFiles_narrows [OF _ neg] by (auto simp: expandItem_def)
    from item flags have "\<not> startsWith (pattern item) ''!''"
      by (simp add: isNegativePattern_def)
    with item(1) have "Some (pattern item) \<in> set (map (\<lambda>item. Some (pattern item)) pl')"
      unfolding pats by force
    then obtain item' where i': "item' \<in> set pl'" "pattern item' = pattern item" by auto
    with pos' item(2) have "expandItem E ?cwd (negativePatterns this) item'
        = expandItem E ?cwd (negativePatterns this) item"
      by (intro expandItem_cong) simp_all
    with x0 have "x \<in> set (expandItem E ?cwd (negativePatterns this) item')" by simp
    moreover from i' pos' have "\<not> isNegated item'" by blast
    ultimately show "x \<in> set (totalFilesAfter E ?cwd negs' (completion' pl'))"
      unfolding set_totalFilesAfter c' negs0 using i'(1) by (intro UN_I [of item']) simp_all
  qed
  moreover from allFiles_Inr [of E incl ?cwd] run run' obtain hits where
    "fs = foldl setAdd (totalFilesAfter E ?cwd negs (completion pl)) hits"
    "fs' = foldl setAdd (totalFilesAfter E ?cwd negs' (completion' pl')) hits"
    by blast
  ultimately have "set fs \<subseteq> set fs'" by (auto simp: set_foldl_setAdd)
  then show ?thesis by (simp add: completeItem_negated)
qed

text \<open>
  Claim C9. Adding the files of a completed expansion to the result set only grows it,
  commutes with adding those of another (as sets) and changes nothing when done twice;
  and the all-files set is the same for any two orders of completion that are
  permutations of each other.
\<close>

theorem accumulation_order_independent:
  "set totalFiles \<subseteq> set (completeItem E cwd negs totalFiles a) \<and>
   set (completeItem E cwd negs (completeItem E cwd negs totalFiles a) b)
     = set (completeItem E cwd negs (completeItem E cwd negs totalFiles b) a) \<and>
   completeItem E cwd negs (completeItem E cwd negs totalFiles a) a
     = completeItem E cwd negs totalFiles a \<and>
   (mset completed = mset completed' \<longrightarrow>
      map_sum id set (allFiles E includeDefaultPackedFiles root cwd negs completed)
        = map_sum id set (allFiles E includeDefaultPackedFiles root cwd negs completed'))"
proof (intro conjI impI)
  show "set totalFiles \<subseteq> set (completeItem E cwd negs totalFiles a)"
    by (simp add: set_completeItem)
  show "set (completeItem E cwd negs (completeItem E cwd negs totalFiles a) b)
     = set (completeItem E cwd negs (completeItem E cwd negs totalFiles b) a)"
    by (auto simp: set_completeItem)
  show "completeItem E cwd negs (completeItem E cwd negs totalFiles a) a
     = completeItem E cwd negs totalFiles a"
    by (simp add: completeItem_def foldl_setAdd_absorb set_foldl_setAdd)
next
  assume "mset completed = mset completed'"
  then have "set completed = set completed'" by (metis mset_eq_setD)
  then have "set (totalFilesAfter E cwd negs completed) = set (totalFilesAfter E cwd negs completed')"
    by (simp add: set_totalFilesAfter)
  moreover obtain D where "\<And>negs completed.
     map_sum id set (allFiles E includeDefaultPackedFiles root cwd negs completed)
       = D (set (totalFilesAfter E cwd negs completed))"
    using allFiles_sets by blast
  ultimately show "map_sum id set (allFiles E includeDefaultPackedFiles root cwd negs completed)
        = map_sum id set (allFiles E includeDefaultPackedFiles root cwd negs completed')"
    by simp
qed


lemma sample_first_readme:
  "firstExisting lowerCasePkg (candidatesFor lowerCasePkg ''/pkg'' ''README.md'')
     = Some ''/pkg/readme.md''"
  by code_simp

lemma sample_all_on:
  "allFiles lowerCasePkg True libManifest ''/pkg'' [] [libItem]
     = Inr [''/pkg/lib/a.js'', ''/pkg/lib/b.js'', ''/pkg/package.json'', ''/pkg/readme.md'']"
  by code_simp

theorem readme_probe_first_hit_witness:
  "firstExisting lowerCasePkg (candidatesFor lowerCasePkg ''/pkg'' ''README.md'')
     = Some ''/pkg/readme.md'' \<and>
   allFiles lowerCasePkg True libManifest ''/pkg'' [] [libItem]
     = Inr [''/pkg/lib/a.js'', ''/pkg/lib/b.js'', ''/pkg/package.json'', ''/pkg/readme.md''] \<and>
   count_list [''/pkg/lib/a.js'', ''/pkg/lib/b.js'', ''/pkg/package.json'', ''/pkg/readme.md'']
     ''/pkg/readme.md'' = 1"
  using readme_probe_first_hit [of lowerCasePkg "''/pkg''" "[]" "[]" libManifest "[]" "[libItem]"]
    sample_first_readme sample_all_on
  by simp

text \<open>
  Claim C2, as stated, fails: in a package directory with \<^verbatim>\<open>Readme.md\<close> and no
  \<^verbatim>\<open>README.md\<close>, the all-files set of \<^verbatim>\<open>{"files": ["lib"]}\<close> does not hold \<^verbatim>\<open>Readme.md\<close>.
\<close>

theorem mixed_case_readme_not_probed:
  "pathExists mixedCasePkg ''/pkg/Readme.md'' = Inr True \<and>
   pathExists mixedCasePkg ''/pkg/README.md'' = Inr False \<and>
   referenceFiles (snd (last (codeLensDataMap (snd
      (getCodeLenses mixedCasePkg True stringNodeRange id (Some libManifest)
         ''/pkg/package.json'' freshProvider)))))
     = Inr [''/pkg/package.json''] \<and>
   count_list [''/pkg/package.json''] ''/pkg/Readme.md'' = 0"
  by code_simp

lemma sample_order_one:
  "allFiles lowerCasePkg True libManifest ''/pkg'' [] [libItem, indexJsItem]
     = Inr [''/pkg/lib/a.js'', ''/pkg/lib/b.js'', ''/pkg/index.js'', ''/pkg/package.json'',
            ''/pkg/readme.md'']"
  by code_simp

lemma sample_order_two:
  "allFiles lowerCasePkg True libManifest ''/pkg'' [] [indexJsItem, libItem]
     = Inr [''/pkg/index.js'', ''/pkg/lib/a.js'', ''/pkg/lib/b.js'', ''/pkg/package.json'',
            ''/pkg/readme.md'']"
  by code_simp

theorem accumulation_order_independent_witness:
  "mset [libItem, indexJsItem] = mset [indexJsItem, libItem] \<and>
   allFiles lowerCasePkg True libManifest ''/pkg'' [] [libItem, indexJsItem]
     = Inr [''/pkg/lib/a.js'', ''/pkg/lib/b.js'', ''/pkg/index.js'', ''/pkg/package.json'',
            ''/pkg/readme.md''] \<and>
   allFiles lowerCasePkg True libManifest ''/pkg'' [] [indexJsItem, libItem]
     = Inr [''/pkg/index.js'', ''/pkg/lib/a.js'', ''/pkg/lib/b.js'', ''/pkg/package.json'',
            ''/pkg/readme.md''] \<and>
   set [''/pkg/lib/a.js'', ''/pkg/lib/b.js'', ''/pkg/index.js'', ''/pkg/package.json'',
        ''/pkg/readme.md'']
     = set [''/pkg/index.js'', ''/pkg/lib/a.js'', ''/pkg/lib/b.js'', ''/pkg/package.json'',
            ''/pkg/readme.md'']"
proof -
  have m: "mset [libItem, indexJsItem] = mset [indexJsItem, libItem]" by simp
  from accumulation_order_independent
         [of _ lowerCasePkg "''/pkg''" "[]" libItem libItem
             "[libItem, indexJsItem]" "[indexJsItem, libItem]" True libManifest]
       m
  have "map_sum id set (allFiles lowerCasePkg True libManifest ''/pkg'' [] [libItem, indexJsItem])
      = map_sum id set (allFiles lowerCasePkg True libManifest ''/pkg'' [] [indexJsItem, libItem])"
    by blast
  then show ?thesis
    using m by (simp add: sample_order_one sample_order_two)
qed

lemma dirname_pkg: "dirname ''/pkg/package.json'' = ''/pkg''"
  by (simp add: dirname_def isSlash_def)

lemma sample_lenses_negated:
  "fst (getCodeLenses lowerCasePkg True stringNodeRange id (Some negatedManifest)
         ''/pkg/package.json'' freshProvider) = Some [(12, 20), (24, 37), (10, 15)]"
  by code_simp

lemma sample_all_negated:
  "referenceFiles (snd (last (codeLensDataMap (snd
      (getCodeLenses lowerCasePkg True stringNodeRange id (Some negatedManifest)
         ''/pkg/package.json'' freshProvider)))))
     = Inr [''/pkg/index.js'', ''/pkg/package.json'', ''/pkg/readme.md'']"
  by code_simp

lemma sample_include_negated:
  "codeLensDataMap (snd
      (getCodeLenses lowerCasePkg True stringNodeRange id (Some negatedManifest)
         ''/pkg/package.json'' freshProvider)) ! 0
     = ((12, 20), \<lparr>lensType = IncludeLens, position = 12, referenceFiles = Inr [''/pkg/index.js'']\<rparr>)"
  by code_simp

lemma sample_package_json:
  "pathExists lowerCasePkg (resolve (processCwd lowerCasePkg) [''/pkg'', ''package.json'']) = Inr True"
  "resolve (processCwd lowerCasePkg) [''/pkg'', ''package.json''] = ''/pkg/package.json''"
  by code_simp+


lemma sample_lenses_notLibB:
  "fst (getCodeLenses lowerCasePkg True stringNodeRange id (Some notLibBManifest)
         ''/pkg/package.json'' freshProvider) = Some [(12, 20), (24, 33), (10, 15)]"
  by code_simp

lemma sample_lenses_indexOnly:
  "fst (getCodeLenses lowerCasePkg True stringNodeRange id (Some indexOnlyManifest)
         ''/pkg/package.json'' freshProvider) = Some [(12, 20), (10, 15)]"
  by code_simp

lemma sample_all_notLibB:
  "referenceFiles (snd (last (codeLensDataMap (snd
      (getCodeLenses lowerCasePkg True stringNodeRange id (Some notLibBManifest)
         ''/pkg/package.json'' freshProvider)))))
     = Inr [''/pkg/index.js'', ''/pkg/package.json'', ''/pkg/readme.md'']"
  by code_simp

lemma sample_all_indexOnly:
  "referenceFiles (snd (last (codeLensDataMap (snd
      (getCodeLenses lowerCasePkg True stringNodeRange id (Some indexOnlyManifest)
         ''/pkg/package.json'' freshProvider)))))
     = Inr [''/pkg/index.js'', ''/pkg/package.json'', ''/pkg/readme.md'']"
  by code_simp

lemma sample_exclude_notLibB:
  "expandItem lowerCasePkg ''/pkg'' [''!lib/b.js'']
     \<lparr>isNegated = True, pattern = ''!lib/b.js'', range = (24, 33)\<rparr> = [''/pkg/lib/b.js'']"
  by code_simp

theorem negation_only_narrows_witness:
  "fst (getCodeLenses lowerCasePkg True stringNodeRange id (Some notLibBManifest)
         ''/pkg/package.json'' freshProvider) = Some [(12, 20), (24, 33), (10, 15)] \<and>
   fst (getCodeLenses lowerCasePkg True stringNodeRange id (Some indexOnlyManifest)
         ''/pkg/package.json'' freshProvider) = Some [(12, 20), (10, 15)] \<and>
   expandItem lowerCasePkg ''/pkg'' [''!lib/b.js'']
     \<lparr>isNegated = True, pattern = ''!lib/b.js'', range = (24, 33)\<rparr> = [''/pkg/lib/b.js''] \<and>
   referenceFiles (snd (last (codeLensDataMap (snd
      (getCodeLenses lowerCasePkg True stringNodeRange id (Some notLibBManifest)
         ''/pkg/package.json'' freshProvider)))))
     = Inr [''/pkg/index.js'', ''/pkg/package.json'', ''/pkg/readme.md''] \<and>
   referenceFiles (snd (last (codeLensDataMap (snd
      (getCodeLenses lowerCasePkg True stringNodeRange id (Some indexOnlyManifest)
         ''/pkg/package.json'' freshProvider)))))
     = Inr [''/pkg/index.js'', ''/pkg/package.json'', ''/pkg/readme.md''] \<and>
   set [''/pkg/index.js'', ''/pkg/package.json'', ''/pkg/readme.md'']
     \<subseteq> set [''/pkg/index.js'', ''/pkg/package.json'', ''/pkg/readme.md'']"
proof -
  let ?g = "getCodeLenses lowerCasePkg True stringNodeRange id (Some notLibBManifest)
         ''/pkg/package.json'' freshProvider"
  let ?h = "getCodeLenses lowerCasePkg True stringNodeRange id (Some indexOnlyManifest)
         ''/pkg/package.json'' freshProvider"
  have run: "?g = (Some [(12, 20), (24, 33), (10, 15)], snd ?g)"
    using sample_lenses_notLibB by (simp add: prod_eq_iff)
  have run': "?h = (Some [(12, 20), (10, 15)], snd ?h)"
    using sample_lenses_indexOnly by (simp add: prod_eq_iff)
  have f: "findNodeAtLocation notLibBManifest [''files'']
     = Some ([0, 1], NArray 10 25 [NString 11 10 ''index.js'', NString 23 11 ''!lib/b.js''])"
    by (simp add: notLibBManifest_def)
  have f': "findNodeAtLocation indexOnlyManifest [''files'']
     = Some ([0, 1], NArray 10 12 [NString 11 10 ''index.js''])"
    by (simp add: indexOnlyManifest_def)
  have only: "map stringValue (children (NArray 10 12 [NString 11 10 ''index.js''])) =
           filter (\<lambda>v. case v of None \<Rightarrow> True | Some s \<Rightarrow> \<not> startsWith s ''!'')
             (map stringValue
                (children (NArray 10 25 [NString 11 10 ''index.js'', NString 23 11 ''!lib/b.js''])))"
    by (simp add: startsWith_def)
  have c: "\<forall>xs :: patternItem list. mset (id xs) = mset xs" by simp
  from negation_only_narrows [OF run run' f f' only c c sample_all_notLibB sample_all_indexOnly]
  have s: "set [''/pkg/index.js'', ''/pkg/package.json'', ''/pkg/readme.md'']
     \<subseteq> set [''/pkg/index.js'', ''/pkg/package.json'', ''/pkg/readme.md'']"
    by (rule conjunct1)
  show ?thesis
    by (intro conjI sample_lenses_notLibB sample_lenses_indexOnly sample_exclude_notLibB
          sample_all_notLibB sample_all_indexOnly s)
qed

end
